theory Spec2Isabelle
  imports Complex_Main "HOL-Library.Word"
begin

section \<open>Beamer Presenter: the presenter window's model\<close>

text \<open>
  A shallow embedding of the presenter side of the tool: the region model of
  \<^verbatim>\<open>config.js\<close>, the window protocol of \<^verbatim>\<open>sync.js\<close>, the renderer and timer
  modules, and the navigation and pointer handlers of the main application module.
  A JavaScript number is a binary64 value: a finite one is the real it denotes, and an
  arithmetic operation rounds its exact result to the nearest binary64 value. Page
  numbers and millisecond timestamps are integers. A thrown \<^verbatim>\<open>Error\<close> is the left
  summand of a result.
\<close>

subsection \<open>Errors\<close>

datatype js_error = Error string

subsection \<open>JavaScript numbers\<close>

text \<open>
  A number is a finite binary64 value, an infinity or \<^verbatim>\<open>NaN\<close>. The sign of zero is
  not modelled.
\<close>

datatype jsnum = Num real | PosInfinity | NegInfinity | NaN

text \<open>
  Rounding to binary64. The binade of \<open>x\<close> is the largest \<open>e\<close> from \<open>-1022\<close> to
  \<open>1023\<close> with \<open>2\<^sup>e \<le> \<bar>x\<bar>\<close>, and \<open>-1022\<close> for the subnormal range below; it is
  found by counting down from 1023. The values of the binade are the multiples of
  \<open>2\<^bsup>e - 52\<^esup>\<close>, and \<open>fl\<close> takes the nearest one, the even multiple at a tie. A
  rounded result beyond the largest finite value is an infinity.
\<close>

fun find_binade :: "nat \<Rightarrow> int \<Rightarrow> real \<Rightarrow> int" where
  "find_binade 0 e a = e"
| "find_binade (Suc n) e a = (if 2 powi e \<le> a then e else find_binade n (e - 1) a)"

definition binade :: "real \<Rightarrow> int" where
  "binade x = find_binade 2045 1023 \<bar>x\<bar>"

definition round_half_even :: "real \<Rightarrow> int" where
  "round_half_even y =
     (let f = \<lfloor>y\<rfloor>; d = y - of_int f
      in if d < 1/2 then f else if 1/2 < d then f + 1 else if even f then f else f + 1)"

definition fl :: "real \<Rightarrow> real" where
  "fl x = (let q = 2 powi (binade x - 52) in q * of_int (round_half_even (x / q)))"

definition MAX_VALUE :: real where
  "MAX_VALUE = (2 ^ 53 - 1) * 2 ^ 971"

definition js_round :: "real \<Rightarrow> jsnum" where
  "js_round x =
     (let r = fl x
      in if MAX_VALUE < r then PosInfinity else if r < - MAX_VALUE then NegInfinity else Num r)"

text \<open>The operators \<^verbatim>\<open>+\<close>, \<^verbatim>\<open>-\<close>, \<^verbatim>\<open>*\<close> and \<^verbatim>\<open>/\<close> on numbers; a zero divisor is \<open>+0\<close>.\<close>

fun js_add :: "jsnum \<Rightarrow> jsnum \<Rightarrow> jsnum" where
  "js_add (Num a) (Num b) = js_round (a + b)"
| "js_add NaN _ = NaN"
| "js_add _ NaN = NaN"
| "js_add PosInfinity NegInfinity = NaN"
| "js_add NegInfinity PosInfinity = NaN"
| "js_add PosInfinity _ = PosInfinity"
| "js_add NegInfinity _ = NegInfinity"
| "js_add (Num a) PosInfinity = PosInfinity"
| "js_add (Num a) NegInfinity = NegInfinity"

fun js_sub :: "jsnum \<Rightarrow> jsnum \<Rightarrow> jsnum" where
  "js_sub (Num a) (Num b) = js_round (a - b)"
| "js_sub NaN _ = NaN"
| "js_sub _ NaN = NaN"
| "js_sub PosInfinity PosInfinity = NaN"
| "js_sub NegInfinity NegInfinity = NaN"
| "js_sub PosInfinity _ = PosInfinity"
| "js_sub NegInfinity _ = NegInfinity"
| "js_sub (Num a) PosInfinity = NegInfinity"
| "js_sub (Num a) NegInfinity = PosInfinity"

fun js_mul :: "jsnum \<Rightarrow> jsnum \<Rightarrow> jsnum" where
  "js_mul (Num a) (Num b) = js_round (a * b)"
| "js_mul NaN _ = NaN"
| "js_mul _ NaN = NaN"
| "js_mul PosInfinity (Num b) = (if b = 0 then NaN else if 0 < b then PosInfinity else NegInfinity)"
| "js_mul NegInfinity (Num b) = (if b = 0 then NaN else if 0 < b then NegInfinity else PosInfinity)"
| "js_mul (Num a) PosInfinity = (if a = 0 then NaN else if 0 < a then PosInfinity else NegInfinity)"
| "js_mul (Num a) NegInfinity = (if a = 0 then NaN else if 0 < a then NegInfinity else PosInfinity)"
| "js_mul PosInfinity PosInfinity = PosInfinity"
| "js_mul PosInfinity NegInfinity = NegInfinity"
| "js_mul NegInfinity PosInfinity = NegInfinity"
| "js_mul NegInfinity NegInfinity = PosInfinity"

fun js_div :: "jsnum \<Rightarrow> jsnum \<Rightarrow> jsnum" where
  "js_div (Num a) (Num b) =
     (if b \<noteq> 0 then js_round (a / b)
      else if 0 < a then PosInfinity else if a < 0 then NegInfinity else NaN)"
| "js_div NaN _ = NaN"
| "js_div _ NaN = NaN"
| "js_div (Num a) PosInfinity = Num 0"
| "js_div (Num a) NegInfinity = Num 0"
| "js_div PosInfinity (Num b) = (if 0 \<le> b then PosInfinity else NegInfinity)"
| "js_div NegInfinity (Num b) = (if 0 \<le> b then NegInfinity else PosInfinity)"
| "js_div _ _ = NaN"

text \<open>Comparisons with a finite number; those with \<^verbatim>\<open>NaN\<close> are false.\<close>

fun js_lt :: "jsnum \<Rightarrow> real \<Rightarrow> bool" where
  "js_lt (Num a) b = (a < b)"
| "js_lt NegInfinity b = True"
| "js_lt PosInfinity b = False"
| "js_lt NaN b = False"

fun js_gt :: "jsnum \<Rightarrow> real \<Rightarrow> bool" where
  "js_gt (Num a) b = (b < a)"
| "js_gt PosInfinity b = True"
| "js_gt NegInfinity b = False"
| "js_gt NaN b = False"

subsection \<open>Region model (config.js)\<close>

record rect =
  rect_x :: jsnum
  rect_y :: jsnum
  rect_w :: jsnum
  rect_h :: jsnum

record regions =
  audience :: rect
  "notes" :: rect

text \<open>
  \<^verbatim>\<open>getRegions(width, height, location = 'right', split = 0.5)\<close>. An omitted
  (undefined) argument is \<open>None\<close> and takes the default of the parameter list. The
  \<^verbatim>\<open>switch\<close> has no default branch, and the body has no \<^verbatim>\<open>throw\<close>: every call
  completes normally, so no equation yields \<open>Inl\<close>.
\<close>

definition getRegions :: "jsnum \<Rightarrow> jsnum \<Rightarrow> string option \<Rightarrow> jsnum option \<Rightarrow> js_error + regions" where
  "getRegions width height location_arg split_arg =
     (let loc = (case location_arg of None \<Rightarrow> ''right'' | Some l \<Rightarrow> l);
          sp = (case split_arg of None \<Rightarrow> Num 0.5 | Some r \<Rightarrow> r);
          initial = \<lparr>audience = \<lparr>rect_x = Num 0, rect_y = Num 0, rect_w = Num 0, rect_h = Num 0\<rparr>,
                     notes = \<lparr>rect_x = Num 0, rect_y = Num 0, rect_w = Num 0, rect_h = Num 0\<rparr>\<rparr>
      in if loc = ''right'' then
           Inr (initial
             \<lparr>audience := \<lparr>rect_x = Num 0, rect_y = Num 0, rect_w = js_mul width sp, rect_h = height\<rparr>,
              notes := \<lparr>rect_x = js_mul width sp, rect_y = Num 0,
                        rect_w = js_mul width (js_sub (Num 1) sp), rect_h = height\<rparr>\<rparr>)
         else if loc = ''left'' then
           Inr (initial
             \<lparr>notes := \<lparr>rect_x = Num 0, rect_y = Num 0, rect_w = js_mul width sp, rect_h = height\<rparr>,
              audience := \<lparr>rect_x = js_mul width sp, rect_y = Num 0,
                           rect_w = js_mul width (js_sub (Num 1) sp), rect_h = height\<rparr>\<rparr>)
         else if loc = ''top'' then
           Inr (initial
             \<lparr>notes := \<lparr>rect_x = Num 0, rect_y = Num 0, rect_w = width, rect_h = js_mul height sp\<rparr>,
              audience := \<lparr>rect_x = Num 0, rect_y = js_mul height sp, rect_w = width,
                           rect_h = js_mul height (js_sub (Num 1) sp)\<rparr>\<rparr>)
         else if loc = ''bottom'' then
           Inr (initial
             \<lparr>audience := \<lparr>rect_x = Num 0, rect_y = Num 0, rect_w = width, rect_h = js_mul height sp\<rparr>,
              notes := \<lparr>rect_x = Num 0, rect_y = js_mul height sp, rect_w = width,
                        rect_h = js_mul height (js_sub (Num 1) sp)\<rparr>\<rparr>)
         else Inr initial)"

text \<open>
  A region whose four fields are finite is a box in the plane. A point lies in a box
  when it is at or after the left and top edges and strictly before the right and
  bottom edges.
\<close>

record box =
  box_x :: real
  box_y :: real
  box_w :: real
  box_h :: real

definition box_of :: "rect \<Rightarrow> box option" where
  "box_of r =
     (case (rect_x r, rect_y r, rect_w r, rect_h r) of
        (Num bx, Num by, Num bw, Num bh) \<Rightarrow> Some \<lparr>box_x = bx, box_y = by, box_w = bw, box_h = bh\<rparr>
      | _ \<Rightarrow> None)"

definition inside :: "box \<Rightarrow> real \<times> real \<Rightarrow> bool" where
  "inside b p \<longleftrightarrow>
     box_x b \<le> fst p \<and> fst p < box_x b + box_w b \<and>
     box_y b \<le> snd p \<and> snd p < box_y b + box_h b"

definition area :: "box \<Rightarrow> real" where
  "area b = box_w b * box_h b"

definition full_page :: "real \<Rightarrow> real \<Rightarrow> box" where
  "full_page width height = \<lparr>box_x = 0, box_y = 0, box_w = width, box_h = height\<rparr>"

definition zero_rect :: rect where
  "zero_rect = \<lparr>rect_x = Num 0, rect_y = Num 0, rect_w = Num 0, rect_h = Num 0\<rparr>"

definition valid_locations :: "string set" where
  "valid_locations = {''right'', ''left'', ''top'', ''bottom''}"

definition horizontal_locations :: "string set" where
  "horizontal_locations = {''right'', ''left''}"

subsection \<open>Values of the environment\<close>

text \<open>
  An \<^verbatim>\<open>ArrayBuffer\<close> is its bytes. A rendered page is a canvas of a pixel size. The
  PDF engine is an external collaborator: a document proxy hands out page objects, and
  a page is rasterised at a viewport scale into a fresh canvas; either call may reject.
\<close>

type_synonym array_buffer = "8 word list"

datatype canvas = Canvas (canvas_width: nat) (canvas_height: nat)

datatype pdf_page = PdfPage (rasterize: "real \<Rightarrow> js_error + canvas")

datatype pdf_document = PdfDocument (numPages: int) (getPage: "int \<Rightarrow> js_error + pdf_page")

datatype pdfjs = PdfJs (getDocument: "array_buffer \<Rightarrow> js_error + pdf_document")

subsection \<open>Messages (config.js, sync.js)\<close>

definition HELLO :: string where "HELLO = ''HELLO''"
definition STATE :: string where "STATE = ''STATE''"
definition NAVIGATE :: string where "NAVIGATE = ''NAVIGATE''"
definition MODE :: string where "MODE = ''MODE''"
definition PDF_DATA :: string where "PDF_DATA = ''PDF_DATA''"
definition ERROR :: string where "ERROR = ''ERROR''"
definition POINTER :: string where "POINTER = ''POINTER''"

datatype payload =
    StatePayload int int string real string
  | NavigatePayload int
  | ModePayload string
  | PdfDataPayload array_buffer string real
  | PointerPayload "jsnum option" "jsnum option" bool
  | OtherPayload string

record message =
  msg_sessionId :: string
  msg_type :: string
  msg_payload :: payload

text \<open>
  The handle of the audience window: whether it has been closed, and the messages
  posted to it so far, oldest first.
\<close>

record audience_window =
  window_closed :: bool
  posted :: "message list"

text \<open>The data of an incoming message event; \<open>None\<close> is an absent field.\<close>

record event_data =
  ev_sessionId :: "string option"
  ev_type :: "string option"
  ev_payload :: "payload option"

subsection \<open>Application state (config.js)\<close>

datatype timer_state = Stopped | Running | Paused

type_synonym cache_key = "int \<times> real"

record AppState =
  pdfDoc :: "pdf_document option"
  pdfData :: "array_buffer option"
  pdfUrl :: "string option"
  totalPages :: int
  currentPage :: int
  location :: string
  split :: real
  scale :: real
  showNextPreview :: bool
  displayMode :: string
  audienceWindow :: "audience_window option"
  isAudienceConnected :: bool
  timerState :: timer_state
  timerStartTime :: "int option"
  timerElapsed :: int
  pageCache :: "(cache_key \<times> canvas) list"

text \<open>
  The presenter page: \<^verbatim>\<open>AppState\<close>, the session identifier of \<^verbatim>\<open>CONFIG\<close>, the
  module variables of the renderer, the timer and the main module, and the parts of
  the document tree that the handlers write. The elements that \<^verbatim>\<open>initElements\<close> looks
  up are taken to exist. A target canvas holds what was last drawn on it: a raster
  and the region cut from it.
\<close>

record pointer_element =
  pointer_hidden :: bool
  style_left :: jsnum
  style_top :: jsnum

record dom_rect =
  rect_left :: real
  rect_top :: real
  rect_width :: real
  rect_height :: real

record presenter = AppState +
  sessionId :: string
  pdfjsLib :: "pdfjs option"
  devicePixelRatio :: real
  timerInterval :: bool
  timerDisplay :: string
  isPointerActive :: bool
  lastPointerSendTime :: int
  presenterPointer :: pointer_element
  canvasRect :: dom_rect
  wrapperRect :: dom_rect
  currentPreview :: "(canvas \<times> rect) option"
  nextPreview :: "(canvas \<times> rect) option"
  notesCanvas :: "(canvas \<times> rect) option"
  nextPreviewSection_hidden :: bool
  connectionStatus :: string
  openAudienceBtn :: string
  toast :: "(string \<times> string) option"
  loadingOverlay_hidden :: bool
  startScreen_hidden :: bool
  presenterScreen_active :: bool
  clockRunning :: bool

subsection \<open>Sending to the audience window (sync.js)\<close>

text \<open>
  \<^verbatim>\<open>postMessage\<close> on a live handle delivers the envelope. The source wraps the call
  in \<^verbatim>\<open>try/catch\<close> and only logs a failure; the payloads built here are plain data
  and a fresh buffer, which the call accepts.
\<close>

definition postMessage :: "message \<Rightarrow> audience_window \<Rightarrow> audience_window" where
  "postMessage m win = win\<lparr>posted := posted win @ [m]\<rparr>"

definition openAudienceWindow :: "audience_window option \<Rightarrow> 'a presenter_scheme \<Rightarrow> 'a presenter_scheme" where
  "openAudienceWindow opened s = s\<lparr>audienceWindow := opened\<rparr>"

definition isAudienceConnected_query :: "'a presenter_scheme \<Rightarrow> bool" where
  "isAudienceConnected_query s \<longleftrightarrow>
     (case audienceWindow s of
        None \<Rightarrow> False
      | Some win \<Rightarrow> \<not> window_closed win \<and> isAudienceConnected s)"

definition sendToAudience :: "string \<Rightarrow> payload \<Rightarrow> 'a presenter_scheme \<Rightarrow> 'a presenter_scheme" where
  "sendToAudience ty pl s =
     (case audienceWindow s of
        None \<Rightarrow> s
      | Some win \<Rightarrow>
          if window_closed win then s
          else s\<lparr>audienceWindow :=
                 Some (postMessage \<lparr>msg_sessionId = sessionId s, msg_type = ty, msg_payload = pl\<rparr> win)\<rparr>)"

definition sendStateToAudience :: "'a presenter_scheme \<Rightarrow> 'a presenter_scheme" where
  "sendStateToAudience s =
     sendToAudience STATE
       (StatePayload (currentPage s) (totalPages s) (location s) (split s) (displayMode s)) s"

definition sendNavigateToAudience :: "int \<Rightarrow> 'a presenter_scheme \<Rightarrow> 'a presenter_scheme" where
  "sendNavigateToAudience page s = sendToAudience NAVIGATE (NavigatePayload page) s"

definition sendModeToAudience :: "string \<Rightarrow> 'a presenter_scheme \<Rightarrow> 'a presenter_scheme" where
  "sendModeToAudience m s = sendToAudience MODE (ModePayload m) s"

text \<open>
  The buffer is cloned (\<^verbatim>\<open>slice(0)\<close>) and the clone is what is transferred, so
  \<^verbatim>\<open>AppState.pdfData\<close> is not touched.
\<close>

definition sendPdfDataToAudience :: "'a presenter_scheme \<Rightarrow> 'a presenter_scheme" where
  "sendPdfDataToAudience s =
     (case pdfData s of
        None \<Rightarrow> s
      | Some buf \<Rightarrow>
          (let dataClone = buf
           in sendToAudience PDF_DATA (PdfDataPayload dataClone (location s) (split s)) s))"

text \<open>
  Modelled from the spec: \<^verbatim>\<open>sendPointerToAudience\<close>. The main module imports it from
  \<^verbatim>\<open>sync.js\<close>, but the module's text at hand does not define it. The spec lists
  \<^verbatim>\<open>POINTER\<close> as a presenter-to-audience message with payload \<^verbatim>\<open>{x, y, active}\<close>
  that is forwarded through the protocol, and says that every send is a no-op when the
  audience window is absent: as its siblings do, it goes through \<^verbatim>\<open>sendToAudience\<close>.
\<close>

definition sendPointerToAudience :: "jsnum option \<Rightarrow> jsnum option \<Rightarrow> bool \<Rightarrow> 'a presenter_scheme \<Rightarrow> 'a presenter_scheme" where
  "sendPointerToAudience px py active s = sendToAudience POINTER (PointerPayload px py active) s"

text \<open>
  \<^verbatim>\<open>handleAudienceMessage(event, onConnect)\<close>: \<^verbatim>\<open>event.data || {}\<close> is destructured,
  a missing or empty \<^verbatim>\<open>type\<close> is skipped, \<^verbatim>\<open>HELLO\<close> resynchronises, \<^verbatim>\<open>ERROR\<close> is
  only logged.
\<close>

definition handleAudienceMessage ::
  "event_data option \<Rightarrow> ('a presenter_scheme \<Rightarrow> 'a presenter_scheme) option \<Rightarrow>
   'a presenter_scheme \<Rightarrow> 'a presenter_scheme" where
  "handleAudienceMessage data onConnect s =
     (let d = (case data of
                 None \<Rightarrow> \<lparr>ev_sessionId = None, ev_type = None, ev_payload = None\<rparr>
               | Some d \<Rightarrow> d)
      in case ev_type d of
           None \<Rightarrow> s
         | Some ty \<Rightarrow>
             if ty = [] then s
             else if ty = HELLO then
               (let s1 = s\<lparr>isAudienceConnected := True\<rparr>;
                    s2 = sendStateToAudience s1;
                    s3 = (if pdfData s2 \<noteq> None then sendPdfDataToAudience s2 else s2)
                in case onConnect of None \<Rightarrow> s3 | Some k \<Rightarrow> k s3)
             else s)"

text \<open>The callback the main module registers only rewrites the status badge.\<close>

definition updateConnectionStatus :: "presenter \<Rightarrow> presenter" where
  "updateConnectionStatus s =
     (let connected = isAudienceConnected_query s
      in s\<lparr>connectionStatus := (if connected then ''Connected'' else ''Not connected''),
            openAudienceBtn := (if connected then ''Reconnect'' else ''Open Audience'')\<rparr>)"

definition presenterMessageListener :: "event_data option \<Rightarrow> presenter \<Rightarrow> presenter" where
  "presenterMessageListener data s = handleAudienceMessage data (Some updateConnectionStatus) s"

definition hello_event :: "event_data option" where
  "hello_event = Some \<lparr>ev_sessionId = None, ev_type = Some HELLO, ev_payload = None\<rparr>"

text \<open>The messages one handshake owes the audience in a given state.\<close>

definition resync_messages :: "'a presenter_scheme \<Rightarrow> message list" where
  "resync_messages s =
     \<lparr>msg_sessionId = sessionId s, msg_type = STATE,
      msg_payload = StatePayload (currentPage s) (totalPages s) (location s) (split s) (displayMode s)\<rparr>
     # (case pdfData s of
          None \<Rightarrow> []
        | Some buf \<Rightarrow>
            [\<lparr>msg_sessionId = sessionId s, msg_type = PDF_DATA,
              msg_payload = PdfDataPayload buf (location s) (split s)\<rparr>])"

definition audience_available :: "'a presenter_scheme \<Rightarrow> bool" where
  "audience_available s \<longleftrightarrow>
     (case audienceWindow s of None \<Rightarrow> False | Some win \<Rightarrow> \<not> window_closed win)"

definition messages_posted :: "'a presenter_scheme \<Rightarrow> message list" where
  "messages_posted s = (case audienceWindow s of None \<Rightarrow> [] | Some win \<Rightarrow> posted win)"

subsection \<open>The page cache: a JavaScript Map\<close>

text \<open>
  A \<^verbatim>\<open>Map\<close> iterates in insertion order: \<^verbatim>\<open>set\<close> on a new key appends the entry,
  \<^verbatim>\<open>set\<close> on an existing key replaces the value where the entry stands,
  \<^verbatim>\<open>delete\<close> removes the entry, and \<^verbatim>\<open>keys().next().value\<close> is the first key
  (\<^verbatim>\<open>undefined\<close> on an empty map). \<^verbatim>\<open>has\<close> and \<^verbatim>\<open>get\<close> only read; the
  test \<^verbatim>\<open>has(k)\<close> followed by \<^verbatim>\<open>get(k)\<close> is one lookup.
\<close>

definition jsmap_get :: "('k \<times> 'v) list \<Rightarrow> 'k \<Rightarrow> 'v option" where
  "jsmap_get m k = map_of m k"

fun jsmap_set :: "('k \<times> 'v) list \<Rightarrow> 'k \<Rightarrow> 'v \<Rightarrow> ('k \<times> 'v) list" where
  "jsmap_set [] k v = [(k, v)]"
| "jsmap_set (e # m) k v = (if fst e = k then (k, v) # m else e # jsmap_set m k v)"

definition jsmap_delete :: "('k \<times> 'v) list \<Rightarrow> 'k option \<Rightarrow> ('k \<times> 'v) list" where
  "jsmap_delete m ko = (case ko of None \<Rightarrow> m | Some k \<Rightarrow> filter (\<lambda>e. fst e \<noteq> k) m)"

definition jsmap_first_key :: "('k \<times> 'v) list \<Rightarrow> 'k option" where
  "jsmap_first_key m = (case m of [] \<Rightarrow> None | e # _ \<Rightarrow> Some (fst e))"

definition jsmap_size :: "('k \<times> 'v) list \<Rightarrow> nat" where
  "jsmap_size m = length m"

subsection \<open>Renderer module\<close>

definition initPdfJs :: "pdfjs option \<Rightarrow> 'a presenter_scheme \<Rightarrow> bool \<times> 'a presenter_scheme" where
  "initPdfJs window_pdfjsLib s =
     (let s1 = s\<lparr>pdfjsLib := window_pdfjsLib\<rparr>
      in (pdfjsLib s1 \<noteq> None, s1))"

text \<open>
  \<^verbatim>\<open>loadPdfFromBuffer\<close>: a throw leaves the assignments made before it in place, so
  the state is returned beside the outcome.
\<close>

definition loadPdfFromBuffer ::
  "array_buffer \<Rightarrow> 'a presenter_scheme \<Rightarrow> (js_error + pdf_document) \<times> 'a presenter_scheme" where
  "loadPdfFromBuffer arrayBuffer s =
     (case pdfjsLib s of
        None \<Rightarrow> (Inl (Error ''PDF.js not initialized''), s)
      | Some lib \<Rightarrow>
          (let s1 = s\<lparr>pdfData := Some arrayBuffer\<rparr>
           in case getDocument lib arrayBuffer of
                Inl e \<Rightarrow> (Inl e, s1)
              | Inr doc \<Rightarrow>
                  (Inr doc,
                   s1\<lparr>pdfDoc := Some doc, totalPages := numPages doc,
                      currentPage := 1, pageCache := []\<rparr>)))"

text \<open>Decimal digits of a number, as \<^verbatim>\<open>toString\<close> and template strings print integers.\<close>

fun show_nat :: "nat \<Rightarrow> string" where
  "show_nat n =
     (if n < 10 then [char_of (48 + n)]
      else show_nat (n div 10) @ [char_of (48 + n mod 10)])"

declare show_nat.simps [simp del]

definition show_int :: "int \<Rightarrow> string" where
  "show_int i = (if i < 0 then CHR ''-'' # show_nat (nat (- i)) else show_nat (nat i))"

record response =
  ok :: bool
  status :: nat
  statusText :: string
  arrayBuffer :: "js_error + array_buffer"

definition loadPdfFromUrl ::
  "(string \<Rightarrow> js_error + response) \<Rightarrow> string \<Rightarrow> 'a presenter_scheme \<Rightarrow>
   (js_error + pdf_document) \<times> 'a presenter_scheme" where
  "loadPdfFromUrl fetch url s =
     (case pdfjsLib s of
        None \<Rightarrow> (Inl (Error ''PDF.js not initialized''), s)
      | Some lib \<Rightarrow>
          (case fetch url of
             Inl e \<Rightarrow> (Inl e, s)
           | Inr resp \<Rightarrow>
               if \<not> ok resp then
                 (Inl (Error (''Failed to fetch PDF: '' @ show_nat (status resp) @ '' '' @ statusText resp)), s)
               else
                 (case arrayBuffer resp of
                    Inl e \<Rightarrow> (Inl e, s)
                  | Inr buf \<Rightarrow>
                      (let s1 = s\<lparr>pdfData := Some buf, pdfUrl := Some url\<rparr>
                       in case getDocument lib buf of
                            Inl e \<Rightarrow> (Inl e, s1)
                          | Inr doc \<Rightarrow>
                              (Inr doc,
                               s1\<lparr>pdfDoc := Some doc, totalPages := numPages doc,
                                  currentPage := 1, pageCache := []\<rparr>)))))"

text \<open>
  The key \<^verbatim>\<open>`${pageNum}-${scale}`\<close> is determined by the two numbers, and two pairs
  of a page number and a positive scale give two different strings: the pair stands
  for the string.
\<close>

definition cacheKey :: "int \<Rightarrow> real \<Rightarrow> cache_key" where
  "cacheKey pageNum sc = (pageNum, sc)"

text \<open>The last, synchronous part of \<^verbatim>\<open>renderFullPage\<close>: evict, then store.\<close>

definition cache_store :: "cache_key \<Rightarrow> canvas \<Rightarrow> (cache_key \<times> canvas) list \<Rightarrow> (cache_key \<times> canvas) list" where
  "cache_store key cv cache =
     (let cache1 = (if jsmap_size cache > 5
                    then (let firstKey = jsmap_first_key cache in jsmap_delete cache firstKey)
                    else cache)
      in jsmap_set cache1 key cv)"

text \<open>
  The render scale is a finite number far from the largest one: the products that
  involve it are rounded, and their overflow is not modelled.
\<close>

definition renderFullPage ::
  "int \<Rightarrow> real option \<Rightarrow> 'a presenter_scheme \<Rightarrow> (js_error + canvas) \<times> 'a presenter_scheme" where
  "renderFullPage pageNum scale_arg s =
     (let sc = (case scale_arg of None \<Rightarrow> 1 | Some r \<Rightarrow> r)
      in case pdfDoc s of
           None \<Rightarrow> (Inl (Error ''No PDF loaded''), s)
         | Some doc \<Rightarrow>
             (let key = cacheKey pageNum sc
              in case jsmap_get (pageCache s) key of
                   Some cv \<Rightarrow> (Inr cv, s)
                 | None \<Rightarrow>
                     (case getPage doc pageNum of
                        Inl e \<Rightarrow> (Inl e, s)
                      | Inr page \<Rightarrow>
                          (case rasterize page (fl (sc * devicePixelRatio s)) of
                             Inl e \<Rightarrow> (Inl e, s)
                           | Inr cv \<Rightarrow> (Inr cv, s\<lparr>pageCache := cache_store key cv (pageCache s)\<rparr>)))))"

text \<open>
  \<^verbatim>\<open>renderAudienceSlide\<close> and \<^verbatim>\<open>renderNotesArea\<close> draw a region of the full page
  on a target canvas (\<^verbatim>\<open>extractRegion\<close>); the sizing of the target is not modelled.
\<close>

datatype target = CurrentPreviewTarget | NextPreviewTarget | NotesCanvasTarget

definition extractRegion :: "canvas \<Rightarrow> target \<Rightarrow> rect \<Rightarrow> presenter \<Rightarrow> presenter" where
  "extractRegion source tgt region s =
     (case tgt of
        CurrentPreviewTarget \<Rightarrow> s\<lparr>currentPreview := Some (source, region)\<rparr>
      | NextPreviewTarget \<Rightarrow> s\<lparr>nextPreview := Some (source, region)\<rparr>
      | NotesCanvasTarget \<Rightarrow> s\<lparr>notesCanvas := Some (source, region)\<rparr>)"

definition renderAudienceSlide :: "target \<Rightarrow> int \<Rightarrow> presenter \<Rightarrow> (js_error + unit) \<times> presenter" where
  "renderAudienceSlide tgt pageNum s =
     (if pdfDoc s = None \<or> pageNum < 1 \<or> pageNum > totalPages s then (Inr (), s)
      else (let sc = scale s
            in case renderFullPage pageNum (Some sc) s of
                 (Inl e, s1) \<Rightarrow> (Inl e, s1)
               | (Inr fullPage, s1) \<Rightarrow>
                   (case getRegions (Num (real (canvas_width fullPage)))
                           (Num (real (canvas_height fullPage)))
                           (Some (location s1)) (Some (Num (split s1))) of
                      Inl e \<Rightarrow> (Inl e, s1)
                    | Inr regs \<Rightarrow> (Inr (), extractRegion fullPage tgt (audience regs) s1))))"

definition renderNotesArea :: "target \<Rightarrow> int \<Rightarrow> presenter \<Rightarrow> (js_error + unit) \<times> presenter" where
  "renderNotesArea tgt pageNum s =
     (if pdfDoc s = None \<or> pageNum < 1 \<or> pageNum > totalPages s then (Inr (), s)
      else (let sc = fl (scale s * 1.5)
            in case renderFullPage pageNum (Some sc) s of
                 (Inl e, s1) \<Rightarrow> (Inl e, s1)
               | (Inr fullPage, s1) \<Rightarrow>
                   (case getRegions (Num (real (canvas_width fullPage)))
                           (Num (real (canvas_height fullPage)))
                           (Some (location s1)) (Some (Num (split s1))) of
                      Inl e \<Rightarrow> (Inl e, s1)
                    | Inr regs \<Rightarrow> (Inr (), extractRegion fullPage tgt (notes regs) s1))))"

subsection \<open>Timer module\<close>

text \<open>The remainder operator \<^verbatim>\<open>%\<close> truncates: the result has the sign of the dividend.\<close>

definition js_rem :: "int \<Rightarrow> int \<Rightarrow> int" where
  "js_rem a b = sgn a * (\<bar>a\<bar> mod \<bar>b\<bar>)"

definition padStart2 :: "string \<Rightarrow> string" where
  "padStart2 t = replicate (2 - length t) CHR ''0'' @ t"

definition formatTime :: "int \<Rightarrow> string" where
  "formatTime ms =
     (let totalSeconds = ms div 1000;
          hours = totalSeconds div 3600;
          minutes = js_rem totalSeconds 3600 div 60;
          seconds = js_rem totalSeconds 60
      in padStart2 (show_int hours) @ '':'' @ padStart2 (show_int minutes) @ '':'' @
         padStart2 (show_int seconds))"

text \<open>
  \<^verbatim>\<open>Date.now()\<close> is an argument: the millisecond clock as read by the call. A
  \<^verbatim>\<open>null\<close> start time counts as 0 in the subtraction.
\<close>

definition getElapsedTime :: "int \<Rightarrow> 'a presenter_scheme \<Rightarrow> int" where
  "getElapsedTime now s =
     (if timerState s = Stopped then 0
      else if timerState s = Paused then timerElapsed s
      else timerElapsed s + (now - (case timerStartTime s of None \<Rightarrow> 0 | Some t \<Rightarrow> t)))"

definition updateTimerDisplay :: "int \<Rightarrow> 'a presenter_scheme \<Rightarrow> 'a presenter_scheme" where
  "updateTimerDisplay now s = s\<lparr>timerDisplay := formatTime (getElapsedTime now s)\<rparr>"

text \<open>
  \<^verbatim>\<open>startTimer\<close> reads the clock for the start time and again, through
  \<^verbatim>\<open>updateTimerDisplay\<close>, for the display.
\<close>

definition startTimer :: "int \<Rightarrow> int \<Rightarrow> 'a presenter_scheme \<Rightarrow> 'a presenter_scheme" where
  "startTimer now now_display s =
     (if timerState s = Running then s
      else (let s1 = (if timerState s = Stopped then s\<lparr>timerElapsed := 0\<rparr> else s);
                s2 = s1\<lparr>timerStartTime := Some now, timerState := Running\<rparr>;
                s3 = s2\<lparr>timerInterval := True\<rparr>
            in updateTimerDisplay now_display s3))"

definition pauseTimer :: "int \<Rightarrow> 'a presenter_scheme \<Rightarrow> 'a presenter_scheme" where
  "pauseTimer now s =
     (if timerState s \<noteq> Running then s
      else (let s1 = s\<lparr>timerElapsed := getElapsedTime now s\<rparr>;
                s2 = s1\<lparr>timerState := Paused\<rparr>;
                s3 = s2\<lparr>timerInterval := False\<rparr>
            in updateTimerDisplay now s3))"

definition resetTimer :: "'a presenter_scheme \<Rightarrow> 'a presenter_scheme" where
  "resetTimer s =
     s\<lparr>timerState := Stopped, timerStartTime := None, timerElapsed := 0,
       timerInterval := False, timerDisplay := ''00:00:00''\<rparr>"

definition toggleTimer :: "int \<Rightarrow> int \<Rightarrow> 'a presenter_scheme \<Rightarrow> 'a presenter_scheme" where
  "toggleTimer now now_display s =
     (if timerState s = Running then pauseTimer now s else startTimer now now_display s)"

definition getTimerState :: "'a presenter_scheme \<Rightarrow> timer_state" where
  "getTimerState s = timerState s"

text \<open>The callback of the one-second interval, which runs while the interval is set.\<close>

definition timer_tick :: "int \<Rightarrow> 'a presenter_scheme \<Rightarrow> 'a presenter_scheme" where
  "timer_tick now s = (if timerInterval s then updateTimerDisplay now s else s)"

subsection \<open>Main module: rendering and navigation\<close>

definition error_message :: "js_error \<Rightarrow> string" where
  "error_message e = (case e of Error m \<Rightarrow> m)"

definition showToast :: "string \<Rightarrow> string \<Rightarrow> presenter \<Rightarrow> presenter" where
  "showToast msg ty s = s\<lparr>toast := Some (msg, ty)\<rparr>"

definition setLoading :: "bool \<Rightarrow> presenter \<Rightarrow> presenter" where
  "setLoading shown s = s\<lparr>loadingOverlay_hidden := \<not> shown\<rparr>"

text \<open>
  \<^verbatim>\<open>renderCurrentPage\<close> catches what the renderer throws and shows it as a toast;
  the page indicator that \<^verbatim>\<open>updatePageDisplay\<close> rewrites is not modelled.
\<close>

definition renderCurrentPage :: "presenter \<Rightarrow> presenter" where
  "renderCurrentPage s =
     (let page = currentPage s
      in case renderAudienceSlide CurrentPreviewTarget page s of
           (Inl e, s1) \<Rightarrow> showToast (''Render error: '' @ error_message e) ''error'' s1
         | (Inr _, s1) \<Rightarrow>
             (case renderNotesArea NotesCanvasTarget page s1 of
                (Inl e, s2) \<Rightarrow> showToast (''Render error: '' @ error_message e) ''error'' s2
              | (Inr _, s2) \<Rightarrow>
                  if showNextPreview s2 \<and> page < totalPages s2 then
                    (case renderAudienceSlide NextPreviewTarget (page + 1)
                            (s2\<lparr>nextPreviewSection_hidden := False\<rparr>) of
                       (Inl e, s3) \<Rightarrow> showToast (''Render error: '' @ error_message e) ''error'' s3
                     | (Inr _, s3) \<Rightarrow> s3)
                  else s2\<lparr>nextPreviewSection_hidden := True\<rparr>))"

definition navigateTo :: "int \<Rightarrow> presenter \<Rightarrow> presenter" where
  "navigateTo page s =
     (if page < 1 \<or> page > totalPages s then s
      else (let s1 = s\<lparr>currentPage := page\<rparr>;
                s2 = sendPointerToAudience None None False s1;
                s3 = s2\<lparr>presenterPointer := (presenterPointer s2)\<lparr>pointer_hidden := True\<rparr>\<rparr>;
                s4 = renderCurrentPage s3
            in sendNavigateToAudience page s4))"

definition nextPage :: "presenter \<Rightarrow> presenter" where
  "nextPage s = navigateTo (currentPage s + 1) s"

definition prevPage :: "presenter \<Rightarrow> presenter" where
  "prevPage s = navigateTo (currentPage s - 1) s"

subsection \<open>Main module: loading a document\<close>

record js_file =
  file_name :: string
  file_arrayBuffer :: "js_error + array_buffer"

text \<open>
  The inputs of the start screen. A number field holds what \<^verbatim>\<open>parseFloat\<close> makes of
  its text, \<open>None\<close> for \<^verbatim>\<open>NaN\<close>; \<^verbatim>\<open>parseFloat(v) || d\<close> takes the default for
  \<^verbatim>\<open>NaN\<close> and for 0.
\<close>

record settings_form =
  locationSelect_value :: string
  splitInput_value :: "real option"
  scaleInput_value :: "real option"
  nextPreviewCheckbox_checked :: bool

definition or_default :: "real option \<Rightarrow> real \<Rightarrow> real" where
  "or_default parsed d = (case parsed of None \<Rightarrow> d | Some r \<Rightarrow> if r = 0 then d else r)"

definition toLowerCase :: "string \<Rightarrow> string" where
  "toLowerCase t =
     map (\<lambda>c. let n = (of_char c :: nat)
              in if 65 \<le> n \<and> n \<le> 90 then char_of (n + 32) else c) t"

definition endsWith :: "string \<Rightarrow> string \<Rightarrow> bool" where
  "endsWith t suffix \<longleftrightarrow> length suffix \<le> length t \<and> drop (length t - length suffix) t = suffix"

definition is_space :: "char \<Rightarrow> bool" where
  "is_space c \<longleftrightarrow> c \<in> set [CHR '' '', CHR 0x09, CHR 0x0A, CHR 0x0B, CHR 0x0C, CHR 0x0D]"

definition trim :: "string \<Rightarrow> string" where
  "trim t = rev (dropWhile is_space (rev (dropWhile is_space t)))"

definition applySettings :: "settings_form \<Rightarrow> presenter \<Rightarrow> presenter" where
  "applySettings form s =
     s\<lparr>location := locationSelect_value form,
       split := or_default (splitInput_value form) 0.5,
       scale := or_default (scaleInput_value form) 1.0,
       showNextPreview := nextPreviewCheckbox_checked form\<rparr>"

definition startClock :: "presenter \<Rightarrow> presenter" where
  "startClock s = s\<lparr>clockRunning := True\<rparr>"

definition handleFileSelect :: "js_file option \<Rightarrow> settings_form \<Rightarrow> presenter \<Rightarrow> presenter" where
  "handleFileSelect file_arg form s =
     (case file_arg of
        None \<Rightarrow> showToast ''Please select a PDF file'' ''error'' s
      | Some f \<Rightarrow>
          if \<not> endsWith (toLowerCase (file_name f)) ''.pdf'' then
            showToast ''Please select a PDF file'' ''error'' s
          else
            (let s1 = setLoading True s
             in case file_arrayBuffer f of
                  Inl e \<Rightarrow>
                    setLoading False (showToast (''Failed to load PDF: '' @ error_message e) ''error'' s1)
                | Inr buf \<Rightarrow>
                    (case loadPdfFromBuffer buf s1 of
                       (Inl e, s2) \<Rightarrow>
                         setLoading False (showToast (''Failed to load PDF: '' @ error_message e) ''error'' s2)
                     | (Inr doc, s2) \<Rightarrow>
                         (let s3 = applySettings form s2;
                              s4 = s3\<lparr>startScreen_hidden := True, presenterScreen_active := True\<rparr>;
                              s5 = startClock s4;
                              s6 = renderCurrentPage s5;
                              s7 = showToast (''Loaded: '' @ file_name f @ '' ('' @
                                     show_int (totalPages s6) @ '' pages)'') ''success'' s6
                          in setLoading False s7))))"

definition handleUrlLoad ::
  "(string \<Rightarrow> js_error + response) \<Rightarrow> string \<Rightarrow> settings_form \<Rightarrow> presenter \<Rightarrow> presenter" where
  "handleUrlLoad fetch urlInput_value form s =
     (let url = trim urlInput_value
      in if url = [] then showToast ''Please enter a URL'' ''error'' s
         else
           (let s1 = setLoading True s
            in case loadPdfFromUrl fetch url s1 of
                 (Inl e, s2) \<Rightarrow>
                   setLoading False
                     (showToast ''Failed to load PDF. Check URL and CORS settings.'' ''error'' s2)
               | (Inr doc, s2) \<Rightarrow>
                   (let s3 = applySettings form s2;
                        s4 = s3\<lparr>startScreen_hidden := True, presenterScreen_active := True\<rparr>;
                        s5 = startClock s4;
                        s6 = renderCurrentPage s5;
                        s7 = showToast (''Loaded: '' @ url @ '' ('' @
                               show_int (totalPages s6) @ '' pages)'') ''success'' s6
                    in setLoading False s7)))"

text \<open>The session fields of \<^verbatim>\<open>AppState\<close> that a load writes, and the rest of it.\<close>

definition app_state :: "presenter \<Rightarrow> AppState" where
  "app_state s =
     \<lparr>pdfDoc = pdfDoc s, pdfData = pdfData s, pdfUrl = pdfUrl s, totalPages = totalPages s,
      currentPage = currentPage s, location = location s, split = split s, scale = scale s,
      showNextPreview = showNextPreview s, displayMode = displayMode s,
      audienceWindow = audienceWindow s, isAudienceConnected = isAudienceConnected s,
      timerState = timerState s, timerStartTime = timerStartTime s,
      timerElapsed = timerElapsed s, pageCache = pageCache s\<rparr>"

subsection \<open>Main module: the laser pointer\<close>

record mouse_event =
  button :: int
  clientX :: real
  clientY :: real


definition getPointerCoords :: "mouse_event \<Rightarrow> presenter \<Rightarrow> (jsnum \<times> jsnum) option" where
  "getPointerCoords e s =
     (let r = canvasRect s;
          px = js_div (js_sub (Num (clientX e)) (Num (rect_left r))) (Num (rect_width r));
          py = js_div (js_sub (Num (clientY e)) (Num (rect_top r))) (Num (rect_height r))
      in if js_lt px 0 \<or> js_gt px 1 \<or> js_lt py 0 \<or> js_gt py 1 then None else Some (px, py))"

definition updatePresenterPointer :: "jsnum option \<Rightarrow> jsnum option \<Rightarrow> bool \<Rightarrow> presenter \<Rightarrow> presenter" where
  "updatePresenterPointer px py active s =
     (case (active, px, py) of
        (True, Some cx, Some cy) \<Rightarrow>
          (let offsetX = js_sub (Num (rect_left (canvasRect s))) (Num (rect_left (wrapperRect s)));
               offsetY = js_sub (Num (rect_top (canvasRect s))) (Num (rect_top (wrapperRect s)));
               posX = js_add offsetX (js_mul cx (Num (rect_width (canvasRect s))));
               posY = js_add offsetY (js_mul cy (Num (rect_height (canvasRect s))))
           in s\<lparr>presenterPointer :=
                  \<lparr>pointer_hidden = False, style_left = posX, style_top = posY\<rparr>\<rparr>)
      | _ \<Rightarrow> s\<lparr>presenterPointer := (presenterPointer s)\<lparr>pointer_hidden := True\<rparr>\<rparr>)"


definition mousedown :: "mouse_event \<Rightarrow> presenter \<Rightarrow> presenter" where
  "mousedown e s =
     (if button e \<noteq> 0 then s
      else (let s1 = s\<lparr>isPointerActive := True\<rparr>
            in case getPointerCoords e s1 of
                 Some (cx, cy) \<Rightarrow>
                   sendPointerToAudience (Some cx) (Some cy) True
                     (updatePresenterPointer (Some cx) (Some cy) True s1)
               | None \<Rightarrow> s1))"




subsection \<open>Notions used in the statements\<close>

text \<open>
  The two extents into which \<open>getRegions\<close> cuts a full extent \<open>d\<close> at a ratio
  \<open>sp\<close>, and the case in which none of the three operations rounds.
\<close>

definition first_part :: "real \<Rightarrow> real \<Rightarrow> real" where
  "first_part d sp = fl (d * sp)"

definition second_part :: "real \<Rightarrow> real \<Rightarrow> real" where
  "second_part d sp = fl (d * fl (1 - sp))"

definition exact_split :: "real \<Rightarrow> real \<Rightarrow> bool" where
  "exact_split d sp \<longleftrightarrow>
     fl (d * sp) = d * sp \<and> fl (1 - sp) = 1 - sp \<and> fl (d * (1 - sp)) = d * (1 - sp)"

text \<open>What rendering may write: the cache, the target canvases, the next-preview section and the toast.\<close>

definition render_frame :: "presenter \<Rightarrow> presenter \<Rightarrow> bool" where
  "render_frame s s' \<longleftrightarrow>
     s'\<lparr>pageCache := pageCache s, currentPreview := currentPreview s,
        nextPreview := nextPreview s, notesCanvas := notesCanvas s,
        nextPreviewSection_hidden := nextPreviewSection_hidden s, toast := toast s\<rparr> = s"

text \<open>The messages of a page change and of a pointer position.\<close>

definition pointer_off :: "presenter \<Rightarrow> message" where
  "pointer_off s = \<lparr>msg_sessionId = sessionId s, msg_type = POINTER,
                    msg_payload = PointerPayload None None False\<rparr>"

definition navigate_message :: "int \<Rightarrow> presenter \<Rightarrow> message" where
  "navigate_message page s = \<lparr>msg_sessionId = sessionId s, msg_type = NAVIGATE,
                    msg_payload = NavigatePayload page\<rparr>"


text \<open>
  A run of render requests, and the keys that the run stores, in the order in which it
  stores them: a request stores its key when the key is not in the cache and the
  engine delivers the raster.
\<close>

fun render_requests :: "(int \<times> real) list \<Rightarrow> presenter \<Rightarrow> presenter" where
  "render_requests [] s = s"
| "render_requests ((p, sc) # reqs) s = render_requests reqs (snd (renderFullPage p (Some sc) s))"

definition stored_key :: "int \<Rightarrow> real \<Rightarrow> presenter \<Rightarrow> cache_key list" where
  "stored_key p sc s =
     (if jsmap_get (pageCache s) (cacheKey p sc) = None \<and> \<not> isl (fst (renderFullPage p (Some sc) s))
      then [cacheKey p sc] else [])"

fun insertion_log :: "(int \<times> real) list \<Rightarrow> presenter \<Rightarrow> cache_key list" where
  "insertion_log [] s = []"
| "insertion_log ((p, sc) # reqs) s =
     stored_key p sc s @ insertion_log reqs (snd (renderFullPage p (Some sc) s))"



text \<open>The start time as the subtraction in \<^verbatim>\<open>getElapsedTime\<close> reads it.\<close>

definition startTimestamp :: "'a presenter_scheme \<Rightarrow> int" where
  "startTimestamp s = (case timerStartTime s of None \<Rightarrow> 0 | Some t \<Rightarrow> t)"

subsection \<open>Example states and collaborators\<close>

text \<open>
  The state of the page when it has just started (the initial \<^verbatim>\<open>AppState\<close> of
  \<^verbatim>\<open>config.js\<close>, nothing loaded, no audience window), window handles, and a small
  PDF engine that accepts buffers starting with \<^verbatim>\<open>%PDF-\<close> as a ten-page document.
  They serve as the concrete inputs of the examples below.
\<close>

text \<open>The number that the literal \<^verbatim>\<open>0.34\<close> denotes.\<close>

definition split_034 :: real where
  "split_034 = 6124895493223875 / 2 ^ 54"

definition startup :: presenter where
  "startup =
     \<lparr>pdfDoc = None, pdfData = None, pdfUrl = None, totalPages = 0, currentPage = 1,
      location = ''right'', split = 0.5, scale = 2.0, showNextPreview = True,
      displayMode = ''normal'', audienceWindow = None, isAudienceConnected = False,
      timerState = Stopped, timerStartTime = None, timerElapsed = 0, pageCache = [],
      sessionId = ''3f2c9a'', pdfjsLib = None, devicePixelRatio = 1,
      timerInterval = False, timerDisplay = ''00:00:00'',
      isPointerActive = False, lastPointerSendTime = 0,
      presenterPointer = \<lparr>pointer_hidden = True, style_left = Num 0, style_top = Num 0\<rparr>,
      canvasRect = \<lparr>rect_left = 20, rect_top = 40, rect_width = 400, rect_height = 300\<rparr>,
      wrapperRect = \<lparr>rect_left = 10, rect_top = 30, rect_width = 420, rect_height = 320\<rparr>,
      currentPreview = None, nextPreview = None, notesCanvas = None,
      nextPreviewSection_hidden = False, connectionStatus = ''Not connected'',
      openAudienceBtn = ''Open Audience'', toast = None, loadingOverlay_hidden = True,
      startScreen_hidden = False, presenterScreen_active = False, clockRunning = False\<rparr>"

definition open_window :: audience_window where
  "open_window = \<lparr>window_closed = False, posted = []\<rparr>"

definition closed_window :: audience_window where
  "closed_window = \<lparr>window_closed = True, posted = []\<rparr>"

definition sample_bytes :: array_buffer where
  "sample_bytes = [0x25, 0x50, 0x44, 0x46, 0x2D]"

definition sample_page :: pdf_page where
  "sample_page = PdfPage (\<lambda>viewport_scale. Inr (Canvas (nat \<lfloor>800 * viewport_scale\<rfloor>) (nat \<lfloor>300 * viewport_scale\<rfloor>)))"

definition sample_document :: pdf_document where
  "sample_document =
     PdfDocument 10 (\<lambda>n. if 1 \<le> n \<and> n \<le> 10 then Inr sample_page else Inl (Error ''Invalid page request.''))"

definition sample_pdfjs :: pdfjs where
  "sample_pdfjs =
     PdfJs (\<lambda>buf. if take 5 buf = sample_bytes then Inr sample_document
                  else Inl (Error ''Invalid PDF structure.''))"

definition loaded_session :: presenter where
  "loaded_session =
     startup\<lparr>pdfjsLib := Some sample_pdfjs, pdfDoc := Some sample_document,
             pdfData := Some sample_bytes, totalPages := 10,
             startScreen_hidden := True, presenterScreen_active := True, clockRunning := True\<rparr>"

text \<open>Render requests at scale 2: six pages, and six pages, the first again, a seventh.\<close>

definition six_pages :: "(int \<times> real) list" where
  "six_pages = [(1, 2), (2, 2), (3, 2), (4, 2), (5, 2), (6, 2)]"

definition eviction_run :: "(int \<times> real) list" where
  "eviction_run = [(1, 2), (2, 2), (3, 2), (4, 2), (5, 2), (6, 2), (1, 2), (7, 2)]"

text \<open>A file with a PDF name whose bytes the engine rejects, and the start screen's inputs.\<close>

definition broken_bytes :: array_buffer where
  "broken_bytes = [0x00, 0x01, 0x02]"

definition broken_file :: js_file where
  "broken_file = \<lparr>file_name = ''Slides.PDF'', file_arrayBuffer = Inr broken_bytes\<rparr>"

definition default_form :: settings_form where
  "default_form = \<lparr>locationSelect_value = ''right'', splitInput_value = Some 0.5,
                    scaleInput_value = Some 2, nextPreviewCheckbox_checked = True\<rparr>"










section \<open>Verified properties\<close>

subsection \<open>Binary64 rounding\<close>

lemma find_binade_range: "e - int n \<le> find_binade n e a \<and> find_binade n e a \<le> e"
proof (induction n arbitrary: e)
  case 0
  show ?case by simp
next
  case (Suc n)
  from Suc [of "e - 1"] show ?case by auto
qed

lemma find_binade_le:
  "2 powi (e - int n) \<le> a \<Longrightarrow> 2 powi (find_binade n e a) \<le> a"
proof (induction n arbitrary: e)
  case 0
  then show ?case by simp
next
  case (Suc n)
  have "e - 1 - int n = e - int (Suc n)" by simp
  with Suc.prems Suc.IH [of "e - 1"] show ?case by auto
qed

lemma find_binade_gt:
  "find_binade n e a < e \<Longrightarrow> a < 2 powi (find_binade n e a + 1)"
proof (induction n arbitrary: e)
  case 0
  then show ?case by simp
next
  case (Suc n)
  show ?case
  proof (cases "2 powi e \<le> a")
    case True
    with Suc.prems show ?thesis by simp
  next
    case False
    then have r: "find_binade (Suc n) e a = find_binade n (e - 1) a" by simp
    show ?thesis
    proof (cases "find_binade n (e - 1) a < e - 1")
      case True
      from Suc.IH [OF True] r show ?thesis by simp
    next
      case False
      with find_binade_range [of "e - 1" n a] have "find_binade n (e - 1) a = e - 1" by simp
      with r \<open>\<not> 2 powi e \<le> a\<close> show ?thesis by simp
    qed
  qed
qed

lemma find_binade_eq:
  assumes "2 powi r \<le> a" "a < 2 powi (r + 1)" "e - int n \<le> r" "r \<le> e"
  shows "find_binade n e a = r"
  using assms
proof (induction n arbitrary: e)
  case 0
  then show ?case by simp
next
  case (Suc n)
  show ?case
  proof (cases "r = e")
    case True
    with Suc.prems show ?thesis by simp
  next
    case False
    with Suc.prems have lt: "r + 1 \<le> e" by simp
    have "(2::real) powi (r + 1) \<le> 2 powi e"
      using lt by (intro power_int_increasing) simp_all
    with Suc.prems(2) have "\<not> 2 powi e \<le> a" by simp
    moreover have "find_binade n (e - 1) a = r"
      using Suc.prems lt by (intro Suc.IH) simp_all
    ultimately show ?thesis by simp
  qed
qed

lemma binade_range: "- 1022 \<le> binade x" "binade x \<le> 1023"
  using find_binade_range [of 1023 2045 "\<bar>x\<bar>"] by (simp_all add: binade_def)

lemma binade_le: "2 powi (- 1022) \<le> \<bar>x\<bar> \<Longrightarrow> 2 powi (binade x) \<le> \<bar>x\<bar>"
  unfolding binade_def by (rule find_binade_le) simp

lemma binade_gt: "binade x < 1023 \<Longrightarrow> \<bar>x\<bar> < 2 powi (binade x + 1)"
  unfolding binade_def by (rule find_binade_gt)

lemma binade_eq:
  "2 powi r \<le> \<bar>x\<bar> \<Longrightarrow> \<bar>x\<bar> < 2 powi (r + 1) \<Longrightarrow> - 1022 \<le> r \<Longrightarrow> r \<le> 1023 \<Longrightarrow> binade x = r"
  unfolding binade_def by (rule find_binade_eq) simp_all

lemma round_half_even_error: "\<bar>of_int (round_half_even y) - y\<bar> \<le> 1/2"
  unfolding round_half_even_def Let_def by (auto simp: abs_real_def) linarith+

lemma round_half_even_of_int [simp]: "round_half_even (of_int k) = k"
  by (simp add: round_half_even_def)

lemma round_half_even_le: "y \<le> of_int N \<Longrightarrow> round_half_even y \<le> N"
proof -
  assume a: "y \<le> of_int N"
  show ?thesis
  proof (cases "y = of_int N")
    case True
    then show ?thesis by simp
  next
    case False
    with a have "y < of_int N" by simp
    then have "\<lfloor>y\<rfloor> < N" by (simp add: floor_less_iff)
    then show ?thesis
      by (auto simp: round_half_even_def Let_def)
  qed
qed

lemma round_half_even_ge: "of_int N \<le> y \<Longrightarrow> N \<le> round_half_even y"
proof -
  assume "of_int N \<le> y"
  then have "N \<le> \<lfloor>y\<rfloor>" by (simp add: le_floor_iff)
  then show ?thesis
    by (auto simp: round_half_even_def Let_def)
qed


lemma quantum_pos: "0 < (2::real) powi k"
  by simp

lemma fl_error: "\<bar>fl x - x\<bar> \<le> 2 powi (binade x - 53)"
proof -
  let ?q = "(2::real) powi (binade x - 52)"
  have q: "0 < ?q" by simp
  have "fl x - x = ?q * (of_int (round_half_even (x / ?q)) - x / ?q)"
    using q by (simp add: fl_def Let_def algebra_simps)
  then have "\<bar>fl x - x\<bar> = ?q * \<bar>of_int (round_half_even (x / ?q)) - x / ?q\<bar>"
    using q by (simp add: abs_mult)
  also have "\<dots> \<le> ?q * (1/2)"
    using q round_half_even_error [of "x / ?q"] by (intro mult_left_mono) simp_all
  also have "\<dots> = 2 powi (binade x - 53)"
  proof -
    have "binade x - 52 = (binade x - 53) + 1" by simp
    then have "?q = 2 powi (binade x - 53) * 2"
      by (simp only: power_int_add [of "2::real", simplified] power_int_1_right)
    then show ?thesis by simp
  qed
  finally show ?thesis .
qed

lemma fl_nonneg: "0 \<le> x \<Longrightarrow> 0 \<le> fl x"
proof -
  assume "0 \<le> x"
  then have "(of_int 0 :: real) \<le> x / 2 powi (binade x - 52)" by simp
  then have "0 \<le> round_half_even (x / 2 powi (binade x - 52))"
    by (rule round_half_even_ge)
  then show ?thesis by (simp add: fl_def Let_def)
qed

lemma fl_zero [simp]: "fl 0 = 0"
  by (simp add: fl_def round_half_even_def)

lemma fl_bounded_by:
  assumes "\<bar>x\<bar> \<le> of_int N * 2 powi (binade x - 52)"
  shows "\<bar>fl x\<bar> \<le> of_int N * 2 powi (binade x - 52)"
proof -
  let ?q = "(2::real) powi (binade x - 52)"
  have q: "0 < ?q" by simp
  from assms q have "x / ?q \<le> of_int N" "of_int (- N) \<le> x / ?q"
    by (simp_all add: field_simps abs_le_iff)
  then have "round_half_even (x / ?q) \<le> N" "- N \<le> round_half_even (x / ?q)"
    by (auto intro: round_half_even_le round_half_even_ge)
  then have "\<bar>(of_int (round_half_even (x / ?q)) :: real)\<bar> \<le> of_int N"
    by (simp add: abs_le_iff)
  then have "?q * \<bar>(of_int (round_half_even (x / ?q)) :: real)\<bar> \<le> ?q * of_int N"
    using q by (intro mult_left_mono) simp_all
  then show ?thesis
    using q by (simp add: fl_def Let_def abs_mult mult.commute)
qed


lemma find_binade_found:
  "e - int n < find_binade n e a \<Longrightarrow> 2 powi (find_binade n e a) \<le> a"
proof (induction n arbitrary: e)
  case 0
  then show ?case by simp
next
  case (Suc n)
  show ?case
  proof (cases "2 powi e \<le> a")
    case True
    then show ?thesis by simp
  next
    case False
    with Suc.prems Suc.IH [of "e - 1"] show ?thesis by simp
  qed
qed

lemma binade_found: "- 1022 < binade x \<Longrightarrow> 2 powi (binade x) \<le> \<bar>x\<bar>"
  unfolding binade_def by (rule find_binade_found) simp

lemma pow2_split: "(2::real) powi e = of_int (2 ^ 52) * 2 powi (e - 52)"
proof -
  have "(2::real) powi (52 + (e - 52)) = 2 powi 52 * 2 powi (e - 52)"
    by (rule power_int_add) simp
  then show ?thesis by simp
qed

lemma pow2_split_next: "(2::real) powi (e + 1) = of_int (2 ^ 53) * 2 powi (e - 52)"
proof -
  have "(2::real) powi (53 + (e - 52)) = 2 powi 53 * 2 powi (e - 52)"
    by (rule power_int_add) simp
  moreover have "53 + (e - 52) = e + 1" by simp
  ultimately show ?thesis by simp
qed

lemma pow2_mono: "a \<le> b \<Longrightarrow> (2::real) powi a \<le> 2 powi b"
  by (rule power_int_increasing) simp_all

lemma pow2_le_cancel: "(2::real) powi a \<le> 2 powi b \<Longrightarrow> a \<le> b"
proof (rule ccontr)
  assume le: "(2::real) powi a \<le> 2 powi b" and "\<not> a \<le> b"
  then have "b < a" by simp
  then have "(2::real) powi b < 2 powi a"
    by (intro power_int_strict_increasing) simp_all
  with le show False by simp
qed

lemma fl_le_next: "binade x < 1023 \<Longrightarrow> \<bar>fl x\<bar> \<le> 2 powi (binade x + 1)"
proof -
  assume "binade x < 1023"
  then have "\<bar>x\<bar> < 2 powi (binade x + 1)"
    by (rule binade_gt)
  then have "\<bar>x\<bar> \<le> of_int (2 ^ 53) * 2 powi (binade x - 52)"
    by (simp only: pow2_split_next [symmetric] less_imp_le)
  then have "\<bar>fl x\<bar> \<le> of_int (2 ^ 53) * 2 powi (binade x - 52)"
    by (rule fl_bounded_by)
  then show ?thesis
    by (simp only: pow2_split_next [symmetric])
qed

lemma fl_le_pow2:
  assumes "\<bar>x\<bar> \<le> 2 powi m" "- 1022 \<le> m" "m \<le> 1023"
  shows "\<bar>fl x\<bar> \<le> 2 powi m"
proof (cases "binade x < m")
  case True
  with assms(3) have "binade x < 1023" by simp
  then have "\<bar>fl x\<bar> \<le> 2 powi (binade x + 1)"
    by (rule fl_le_next)
  also have "\<dots> \<le> 2 powi m"
    using True by (intro pow2_mono) simp
  finally show ?thesis .
next
  case False
  have "binade x = m"
  proof (cases "- 1022 < binade x")
    case True
    from binade_found [OF True] assms(1) have "(2::real) powi (binade x) \<le> 2 powi m"
      by simp
    then have "binade x \<le> m" by (rule pow2_le_cancel)
    with False show ?thesis by simp
  next
    case False
    with binade_range(1) [of x] have "binade x = - 1022" by simp
    with \<open>\<not> binade x < m\<close> assms(2) show ?thesis by simp
  qed
  with assms(1) have "\<bar>x\<bar> \<le> of_int (2 ^ 52) * 2 powi (binade x - 52)"
    by (simp only: pow2_split [symmetric])
  then have "\<bar>fl x\<bar> \<le> of_int (2 ^ 52) * 2 powi (binade x - 52)"
    by (rule fl_bounded_by)
  then show ?thesis
    using \<open>binade x = m\<close> by (simp only: pow2_split [symmetric])
qed

lemma fl_le_MAX_VALUE:
  assumes "\<bar>x\<bar> \<le> MAX_VALUE"
  shows "\<bar>fl x\<bar> \<le> MAX_VALUE"
proof (cases "binade x < 1023")
  case True
  then have "\<bar>fl x\<bar> \<le> 2 powi (binade x + 1)"
    by (rule fl_le_next)
  also have "\<dots> \<le> 2 powi 1023"
    using True by (intro pow2_mono) simp
  also have "\<dots> \<le> MAX_VALUE"
    by (simp add: MAX_VALUE_def)
  finally show ?thesis .
next
  case False
  with binade_range(2) [of x] have e: "binade x = 1023" by simp
  have m: "MAX_VALUE = of_int (2 ^ 53 - 1) * 2 powi (binade x - 52)"
    by (simp add: MAX_VALUE_def e)
  from assms have "\<bar>fl x\<bar> \<le> of_int (2 ^ 53 - 1) * 2 powi (binade x - 52)"
    unfolding m by (rule fl_bounded_by)
  then show ?thesis
    by (simp only: m [symmetric])
qed

lemma fl_relative_error: "\<bar>fl x - x\<bar> \<le> 2 powi (- 53) * \<bar>x\<bar> + 2 powi (- 1075)"
proof (cases "- 1022 < binade x")
  case True
  have "(2::real) powi (binade x - 53) = 2 powi (- 53) * 2 powi (binade x)"
  proof -
    have "(2::real) powi (- 53 + binade x) = 2 powi (- 53) * 2 powi (binade x)"
      by (rule power_int_add) simp
    then show ?thesis by (simp add: add.commute)
  qed
  also have "\<dots> \<le> 2 powi (- 53) * \<bar>x\<bar>"
    using binade_found [OF True] by (intro mult_left_mono) simp_all
  finally have "(2::real) powi (binade x - 53) \<le> 2 powi (- 53) * \<bar>x\<bar>" .
  moreover have "0 \<le> (2::real) powi (- 1075)" by simp
  ultimately show ?thesis
    using fl_error [of x] by linarith
next
  case False
  with binade_range(1) [of x] have "binade x = - 1022" by simp
  with fl_error [of x] have "\<bar>fl x - x\<bar> \<le> 2 powi (- 1075)" by simp
  moreover have "0 \<le> (2::real) powi (- 53) * \<bar>x\<bar>" by simp
  ultimately show ?thesis by linarith
qed

lemma fl_eval:
  "binade x = e \<Longrightarrow> fl x = 2 powi (e - 52) * of_int (round_half_even (x / 2 powi (e - 52)))"
  by (simp add: fl_def Let_def)

lemma js_round_Num: "\<bar>x\<bar> \<le> MAX_VALUE \<Longrightarrow> js_round x = Num (fl x)"
  using fl_le_MAX_VALUE [of x] by (simp add: js_round_def Let_def abs_le_iff not_less)

lemma fl_exact_values:
  "fl 2 = 2" "fl 75 = 75" "fl 100 = 100" "fl 600 = 600" "fl (1/4) = 1/4" "fl (3/2) = 3/2"
proof -
  have "binade 2 = 1"
    by (rule binade_eq) simp_all
  then show "fl 2 = 2"
    by (simp add: fl_eval power_int_minus round_half_even_def)
  have "binade 75 = 6"
    by (rule binade_eq) simp_all
  then show "fl 75 = 75"
    by (simp add: fl_eval power_int_minus round_half_even_def)
  have "binade 100 = 6"
    by (rule binade_eq) simp_all
  then show "fl 100 = 100"
    by (simp add: fl_eval power_int_minus round_half_even_def)
  have "binade 600 = 9"
    by (rule binade_eq) simp_all
  then show "fl 600 = 600"
    by (simp add: fl_eval power_int_minus round_half_even_def)
  have "binade (1/4) = - 2"
    by (rule binade_eq) (simp_all add: power_int_minus)
  then show "fl (1/4) = 1/4"
    by (simp add: fl_eval power_int_minus round_half_even_def)
  have "binade (3/2) = 0"
    by (rule binade_eq) simp_all
  then show "fl (3/2) = 3/2"
    by (simp add: fl_eval power_int_minus round_half_even_def)
qed


subsection \<open>Region model\<close>

lemma split_parts:
  assumes "0 < d" "d \<le> MAX_VALUE" "0 < sp" "sp < 1"
  shows "js_mul (Num d) (Num sp) = Num (first_part d sp)"
    and "js_mul (Num d) (js_sub (Num 1) (Num sp)) = Num (second_part d sp)"
    and "0 \<le> first_part d sp" and "0 \<le> second_part d sp"
    and "\<bar>first_part d sp + second_part d sp - d\<bar> \<le> 2 powi (- 51) * d + 2 powi (- 1073)"
    and "exact_split d sp \<Longrightarrow> first_part d sp + second_part d sp = d"
proof -
  let ?A = "fl (d * sp)" and ?T = "fl (1 - sp)"
  let ?N = "fl (d * ?T)"
  let ?u = "(2::real) powi (- 53)" and ?n = "(2::real) powi (- 1075)"
  have one: "1 \<le> MAX_VALUE"
    by (simp add: MAX_VALUE_def)
  have ds: "0 \<le> d * sp" "d * sp \<le> d"
    using assms by (simp_all add: mult_left_le)
  have T0: "0 \<le> ?T"
    using assms by (intro fl_nonneg) simp
  have "\<bar>?T\<bar> \<le> 2 powi 0"
    using assms by (intro fl_le_pow2) simp_all
  then have T1: "?T \<le> 1"
    by simp
  have dT: "0 \<le> d * ?T" "d * ?T \<le> d"
    using assms T0 T1 by (simp_all add: mult_left_le)
  show a: "js_mul (Num d) (Num sp) = Num (first_part d sp)"
    unfolding js_mul.simps first_part_def using ds assms(2) by (intro js_round_Num) simp
  have t: "js_sub (Num 1) (Num sp) = Num ?T"
    unfolding js_sub.simps using assms one by (intro js_round_Num) simp
  show "js_mul (Num d) (js_sub (Num 1) (Num sp)) = Num (second_part d sp)"
    unfolding t js_mul.simps second_part_def using dT assms(2) by (intro js_round_Num) simp
  show "0 \<le> first_part d sp"
    unfolding first_part_def using ds by (intro fl_nonneg)
  show "0 \<le> second_part d sp"
    unfolding second_part_def using dT by (intro fl_nonneg)
  show "\<bar>first_part d sp + second_part d sp - d\<bar> \<le> 2 powi (- 51) * d + 2 powi (- 1073)"
  proof -
    define u :: real where "u = 2 powi (- 53)"
    define n :: real where "n = 2 powi (- 1075)"
    have eA: "\<bar>?A - d * sp\<bar> \<le> u * \<bar>d * sp\<bar> + n"
      unfolding u_def n_def by (rule fl_relative_error)
    have eT: "\<bar>?T - (1 - sp)\<bar> \<le> u * \<bar>1 - sp\<bar> + n"
      unfolding u_def n_def by (rule fl_relative_error)
    have eN: "\<bar>?N - d * ?T\<bar> \<le> u * \<bar>d * ?T\<bar> + n"
      unfolding u_def n_def by (rule fl_relative_error)
    have u0: "0 \<le> u" and n0: "0 \<le> n"
      by (simp_all add: u_def n_def)
    have nu: "n \<le> u"
      unfolding u_def n_def by (intro pow2_mono) simp
    have four_u: "4 * u = 2 powi (- 51)"
    proof -
      have "(2::real) powi (2 + - 53) = 2 powi 2 * 2 powi (- 53)"
        by (rule power_int_add) simp
      then show ?thesis by (simp add: u_def)
    qed
    have four_n: "4 * n = 2 powi (- 1073)"
    proof -
      have "(2::real) powi (2 + - 1075) = 2 powi 2 * 2 powi (- 1075)"
        by (rule power_int_add) simp
      then show ?thesis by (simp add: n_def)
    qed
    have b1: "u * \<bar>d * sp\<bar> \<le> u * d"
      using ds u0 by (intro mult_left_mono) simp_all
    have b2: "u * \<bar>d * ?T\<bar> \<le> u * d"
      using dT u0 by (intro mult_left_mono) simp_all
    have "u * \<bar>1 - sp\<bar> \<le> u * 1"
      using assms u0 by (intro mult_left_mono) simp_all
    with eT have eT': "\<bar>?T - (1 - sp)\<bar> \<le> u + n"
      by simp
    have "\<bar>d * (?T - (1 - sp))\<bar> = d * \<bar>?T - (1 - sp)\<bar>"
      using assms(1) by (simp add: abs_mult)
    also have "\<dots> \<le> d * (u + n)"
      using eT' assms(1) by (intro mult_left_mono) simp_all
    also have "\<dots> \<le> d * (u + u)"
      using nu assms(1) by (intro mult_left_mono) simp_all
    finally have b3: "\<bar>d * (?T - (1 - sp))\<bar> \<le> 2 * (u * d)"
      by (simp add: algebra_simps)
    have split: "?A + ?N - d = (?A - d * sp) + (?N - d * ?T) + d * (?T - (1 - sp))"
      by (simp add: algebra_simps)
    have "\<bar>?A + ?N - d\<bar> \<le> \<bar>?A - d * sp\<bar> + \<bar>?N - d * ?T\<bar> + \<bar>d * (?T - (1 - sp))\<bar>"
      unfolding split by linarith
    also have "\<dots> \<le> 4 * (u * d) + 4 * n"
      using eA eN b1 b2 b3 n0 by linarith
    also have "\<dots> = 2 powi (- 51) * d + 2 powi (- 1073)"
      unfolding four_u [symmetric] four_n [symmetric] by simp
    finally show ?thesis
      by (simp only: first_part_def second_part_def)
  qed
  show "first_part d sp + second_part d sp = d" if "exact_split d sp"
  proof -
    from that have "first_part d sp = d * sp" "second_part d sp = d * (1 - sp)"
      by (simp_all add: exact_split_def first_part_def second_part_def)
    then show ?thesis
      by (simp add: algebra_simps)
  qed
qed


lemma side_by_side_pair:
  assumes "0 \<le> a" "0 \<le> n" "\<bar>a + n - w\<bar> \<le> E" "X \<longrightarrow> a + n = w"
    and "A = \<lparr>box_x = 0, box_y = 0, box_w = a, box_h = h\<rparr>"
    and "N = \<lparr>box_x = a, box_y = 0, box_w = n, box_h = h\<rparr>"
  shows "\<not> (inside A p \<and> inside N p) \<and>
         (box_h A = h \<and> box_h N = h \<and>
          (inside (full_page (box_w A + box_w N) h) p \<longleftrightarrow> inside A p \<or> inside N p) \<and>
          area A + area N = (box_w A + box_w N) * h \<and>
          \<bar>box_w A + box_w N - w\<bar> \<le> E \<and>
          (X \<longrightarrow> box_w A + box_w N = w))"
    and "\<not> (inside N p \<and> inside A p) \<and>
         (box_h N = h \<and> box_h A = h \<and>
          (inside (full_page (box_w N + box_w A) h) p \<longleftrightarrow> inside N p \<or> inside A p) \<and>
          area N + area A = (box_w N + box_w A) * h \<and>
          \<bar>box_w N + box_w A - w\<bar> \<le> E \<and>
          (X \<longrightarrow> box_w N + box_w A = w))"
  using assms by (auto simp: inside_def full_page_def area_def algebra_simps)

lemma stacked_pair:
  assumes "0 \<le> a" "0 \<le> n" "\<bar>a + n - h\<bar> \<le> E" "X \<longrightarrow> a + n = h"
    and "A = \<lparr>box_x = 0, box_y = 0, box_w = w, box_h = a\<rparr>"
    and "N = \<lparr>box_x = 0, box_y = a, box_w = w, box_h = n\<rparr>"
  shows "\<not> (inside A p \<and> inside N p) \<and>
         (box_w A = w \<and> box_w N = w \<and>
          (inside (full_page w (box_h A + box_h N)) p \<longleftrightarrow> inside A p \<or> inside N p) \<and>
          area A + area N = w * (box_h A + box_h N) \<and>
          \<bar>box_h A + box_h N - h\<bar> \<le> E \<and>
          (X \<longrightarrow> box_h A + box_h N = h))"
    and "\<not> (inside N p \<and> inside A p) \<and>
         (box_w N = w \<and> box_w A = w \<and>
          (inside (full_page w (box_h N + box_h A)) p \<longleftrightarrow> inside N p \<or> inside A p) \<and>
          area N + area A = w * (box_h N + box_h A) \<and>
          \<bar>box_h N + box_h A - h\<bar> \<le> E \<and>
          (X \<longrightarrow> box_h N + box_h A = h))"
  using assms by (auto simp: inside_def full_page_def area_def algebra_simps)

lemma split_034_literal: "fl (34 / 100) = split_034"
proof -
  have "binade (34 / 100) = - 2"
    by (rule binade_eq) (simp_all add: power_int_minus)
  then show ?thesis
    by (simp add: fl_eval power_int_minus round_half_even_def split_034_def)
qed

lemma split_034_parts:
  "first_part 1600 split_034 = 544"
  "second_part 1600 split_034 = 4644337115725823 / 2 ^ 42"
proof -
  have "binade (1600 * split_034) = 9"
    by (rule binade_eq) (simp_all add: split_034_def)
  then show "first_part 1600 split_034 = 544"
    by (simp add: first_part_def fl_eval power_int_minus round_half_even_def split_034_def)
  have "binade (1 - split_034) = - 1"
    by (rule binade_eq) (simp_all add: power_int_minus split_034_def)
  then have t: "fl (1 - split_034) = 2972375754064527 / 2 ^ 52"
    by (simp add: fl_eval power_int_minus round_half_even_def split_034_def)
  have "binade (1600 * (2972375754064527 / 2 ^ 52)) = 10"
    by (rule binade_eq) simp_all
  then have "fl (1600 * (2972375754064527 / 2 ^ 52)) = 4644337115725823 / 2 ^ 42"
    by (simp add: fl_eval power_int_minus round_half_even_def)
  then show "second_part 1600 split_034 = 4644337115725823 / 2 ^ 42"
    by (simp only: second_part_def t)
qed

lemma split_034_products:
  "js_mul (Num 1600) (Num split_034) = Num 544"
  "js_mul (Num 1600) (js_sub (Num 1) (Num split_034)) = Num (4644337115725823 / 2 ^ 42)"
proof -
  have r: "0 < (1600::real)" "1600 \<le> MAX_VALUE" "0 < split_034" "split_034 < 1"
    by (simp_all add: MAX_VALUE_def split_034_def)
  from split_parts(1,2) [OF r] show
    "js_mul (Num 1600) (Num split_034) = Num 544"
    "js_mul (Num 1600) (js_sub (Num 1) (Num split_034)) = Num (4644337115725823 / 2 ^ 42)"
    by (simp_all only: split_034_parts)
qed

lemma quarter_exact: "exact_split 800 (1/4)"
proof -
  have "binade (800 * (1/4)) = 7"
    by (rule binade_eq) simp_all
  then have a: "fl (800 * (1/4)) = 800 * (1/4)"
    by (simp add: fl_eval power_int_minus round_half_even_def)
  have "binade (1 - 1/4) = - 1"
    by (rule binade_eq) (simp_all add: power_int_minus)
  then have b: "fl (1 - 1/4) = 1 - 1/4"
    by (simp add: fl_eval power_int_minus round_half_even_def)
  have "binade (800 * (1 - 1/4)) = 9"
    by (rule binade_eq) simp_all
  then have c: "fl (800 * (1 - 1/4)) = 800 * (1 - 1/4)"
    by (simp add: fl_eval power_int_minus round_half_even_def)
  from a b c show ?thesis
    unfolding exact_split_def by blast
qed

lemma quarter_products:
  "js_mul (Num 800) (Num (1/4)) = Num 200"
  "js_mul (Num 800) (js_sub (Num 1) (Num (1/4))) = Num 600"
proof -
  have r: "0 < (800::real)" "800 \<le> MAX_VALUE" "0 < (1/4::real)" "(1/4::real) < 1"
    by (simp_all add: MAX_VALUE_def)
  have "fl (800 * (1/4)) = 800 * (1/4)" "fl (1 - 1/4) = 1 - 1/4"
    "fl (800 * (1 - 1/4)) = 800 * (1 - 1/4)"
    using quarter_exact unfolding exact_split_def by blast+
  then have p: "first_part 800 (1/4) = 200" "second_part 800 (1/4) = 600"
    by (simp_all only: first_part_def second_part_def) simp_all
  from split_parts(1,2) [OF r] show
    "js_mul (Num 800) (Num (1/4)) = Num 200"
    "js_mul (Num 800) (js_sub (Num 1) (Num (1/4))) = Num 600"
    by (simp_all only: p)
qed

text \<open>
  C1 as the spec states it has the two widths add up to the full width and the two
  regions cover the page. The products are binary64 products: for a page 1600 wide
  and 600 high, the notes on the right and the split ratio \<^verbatim>\<open>0.34\<close>, the widths are 544
  and 1056 less one part in \<open>2 ^ 42\<close>; their sum falls short of 1600, and the point at
  that sum on the top edge lies in the page and in neither region. With the notes on
  top of a page 1600 high the heights are the same two numbers.
\<close>

theorem getRegions_rounding_counterexample:
  "getRegions (Num 1600) (Num 600) (Some ''right'') (Some (Num split_034)) =
     Inr \<lparr>audience = \<lparr>rect_x = Num 0, rect_y = Num 0, rect_w = Num 544, rect_h = Num 600\<rparr>,
          notes = \<lparr>rect_x = Num 544, rect_y = Num 0,
                    rect_w = Num (4644337115725823 / 2 ^ 42), rect_h = Num 600\<rparr>\<rparr> \<and>
   (544::real) + 4644337115725823 / 2 ^ 42 = 1600 - 1 / 2 ^ 42 \<and>
   inside (full_page 1600 600) (1600 - 1 / 2 ^ 42, 0) \<and>
   \<not> inside \<lparr>box_x = 0, box_y = 0, box_w = 544, box_h = 600\<rparr> (1600 - 1 / 2 ^ 42, 0) \<and>
   \<not> inside \<lparr>box_x = 544, box_y = 0, box_w = 4644337115725823 / 2 ^ 42, box_h = 600\<rparr>
       (1600 - 1 / 2 ^ 42, 0) \<and>
   getRegions (Num 600) (Num 1600) (Some ''top'') (Some (Num split_034)) =
     Inr \<lparr>audience = \<lparr>rect_x = Num 0, rect_y = Num 544, rect_w = Num 600,
                       rect_h = Num (4644337115725823 / 2 ^ 42)\<rparr>,
          notes = \<lparr>rect_x = Num 0, rect_y = Num 0, rect_w = Num 600, rect_h = Num 544\<rparr>\<rparr>"
proof -
  have g1: "getRegions (Num 1600) (Num 600) (Some ''right'') (Some (Num split_034)) =
     Inr \<lparr>audience = \<lparr>rect_x = Num 0, rect_y = Num 0, rect_w = Num 544, rect_h = Num 600\<rparr>,
          notes = \<lparr>rect_x = Num 544, rect_y = Num 0,
                    rect_w = Num (4644337115725823 / 2 ^ 42), rect_h = Num 600\<rparr>\<rparr>"
    by (simp add: getRegions_def split_034_products del: js_mul.simps js_sub.simps)
  have g2: "getRegions (Num 600) (Num 1600) (Some ''top'') (Some (Num split_034)) =
     Inr \<lparr>audience = \<lparr>rect_x = Num 0, rect_y = Num 544, rect_w = Num 600,
                       rect_h = Num (4644337115725823 / 2 ^ 42)\<rparr>,
          notes = \<lparr>rect_x = Num 0, rect_y = Num 0, rect_w = Num 600, rect_h = Num 544\<rparr>\<rparr>"
    by (simp add: getRegions_def split_034_products del: js_mul.simps js_sub.simps)
  have geo: "(544::real) + 4644337115725823 / 2 ^ 42 = 1600 - 1 / 2 ^ 42 \<and>
   inside (full_page 1600 600) (1600 - 1 / 2 ^ 42, 0) \<and>
   \<not> inside \<lparr>box_x = 0, box_y = 0, box_w = 544, box_h = 600\<rparr> (1600 - 1 / 2 ^ 42, 0) \<and>
   \<not> inside \<lparr>box_x = 544, box_y = 0, box_w = 4644337115725823 / 2 ^ 42, box_h = 600\<rparr>
       (1600 - 1 / 2 ^ 42, 0)"
    by (simp add: inside_def full_page_def)
  from g1 g2 geo show ?thesis
    by blast
qed

text \<open>
  C1, amended. For a finite positive width and height, a split ratio strictly between 0
  and 1 and one of the four locations, \<open>getRegions\<close> returns two regions with finite
  fields that share no point. For right and left both have the full height and the
  second starts where the first ends, so that together they are exactly the box of the
  full height whose width is the sum of their widths; that sum is the full width when
  none of the three operations rounds, and in any case differs from it by at most the
  width divided by \<open>2 ^ 51\<close>, plus \<open>1 / 2 ^ 1073\<close>. For top and bottom the same holds
  with widths and heights exchanged. For right the audience region is
  \<^verbatim>\<open>{0, 0, width * split, height}\<close> and the notes region is
  \<^verbatim>\<open>{width * split, 0, width * (1 - split), height}\<close>, the operators being those of
  JavaScript.
\<close>

theorem getRegions_partition:
  assumes "0 < w" "w \<le> MAX_VALUE" "0 < h" "h \<le> MAX_VALUE" "0 < sp" "sp < 1"
    "loc \<in> valid_locations"
  shows "\<exists>r a n. getRegions (Num w) (Num h) (Some loc) (Some (Num sp)) = Inr r \<and>
           box_of (audience r) = Some a \<and> box_of (notes r) = Some n \<and>
           \<not> (inside a p \<and> inside n p) \<and>
           (loc \<in> horizontal_locations \<longrightarrow>
              box_h a = h \<and> box_h n = h \<and>
              (inside (full_page (box_w a + box_w n) h) p \<longleftrightarrow> inside a p \<or> inside n p) \<and>
              area a + area n = (box_w a + box_w n) * h \<and>
              \<bar>box_w a + box_w n - w\<bar> \<le> 2 powi (- 51) * w + 2 powi (- 1073) \<and>
              (exact_split w sp \<longrightarrow> box_w a + box_w n = w)) \<and>
           (loc \<notin> horizontal_locations \<longrightarrow>
              box_w a = w \<and> box_w n = w \<and>
              (inside (full_page w (box_h a + box_h n)) p \<longleftrightarrow> inside a p \<or> inside n p) \<and>
              area a + area n = w * (box_h a + box_h n) \<and>
              \<bar>box_h a + box_h n - h\<bar> \<le> 2 powi (- 51) * h + 2 powi (- 1073) \<and>
              (exact_split h sp \<longrightarrow> box_h a + box_h n = h)) \<and>
           (loc = ''right'' \<longrightarrow>
              audience r = \<lparr>rect_x = Num 0, rect_y = Num 0,
                             rect_w = js_mul (Num w) (Num sp), rect_h = Num h\<rparr> \<and>
              notes r = \<lparr>rect_x = js_mul (Num w) (Num sp), rect_y = Num 0,
                          rect_w = js_mul (Num w) (js_sub (Num 1) (Num sp)), rect_h = Num h\<rparr>)"
proof -
  note pw = split_parts [OF assms(1) assms(2) assms(5) assms(6)]
  note ph = split_parts [OF assms(3) assms(4) assms(5) assms(6)]
  let ?wa = "first_part w sp" and ?wn = "second_part w sp"
  let ?ha = "first_part h sp" and ?hn = "second_part h sp"
  have xw: "exact_split w sp \<longrightarrow> ?wa + ?wn = w"
    using pw(6) by blast
  have xh: "exact_split h sp \<longrightarrow> ?ha + ?hn = h"
    using ph(6) by blast
  note hor = side_by_side_pair [OF pw(3) pw(4) pw(5) xw refl refl, of h p]
  note ver = stacked_pair [OF ph(3) ph(4) ph(5) xh refl refl, of w p]
  from assms(7) consider "loc = ''right''" | "loc = ''left''" | "loc = ''top''" | "loc = ''bottom''"
    by (auto simp: valid_locations_def)
  then show ?thesis
  proof cases
    case 1
    let ?a = "\<lparr>box_x = 0, box_y = 0, box_w = ?wa, box_h = h\<rparr>"
    let ?n = "\<lparr>box_x = ?wa, box_y = 0, box_w = ?wn, box_h = h\<rparr>"
    let ?r = "\<lparr>audience = \<lparr>rect_x = Num 0, rect_y = Num 0, rect_w = Num ?wa, rect_h = Num h\<rparr>,
              notes = \<lparr>rect_x = Num ?wa, rect_y = Num 0, rect_w = Num ?wn, rect_h = Num h\<rparr>\<rparr>"
    have g: "getRegions (Num w) (Num h) (Some loc) (Some (Num sp)) = Inr ?r"
      using 1 by (simp add: getRegions_def pw(1,2) del: js_mul.simps js_sub.simps)
    have b: "box_of (audience ?r) = Some ?a" "box_of (notes ?r) = Some ?n"
      by (simp_all add: box_of_def)
    have c: "audience ?r = \<lparr>rect_x = Num 0, rect_y = Num 0,
                             rect_w = js_mul (Num w) (Num sp), rect_h = Num h\<rparr>"
      "notes ?r = \<lparr>rect_x = js_mul (Num w) (Num sp), rect_y = Num 0,
                          rect_w = js_mul (Num w) (js_sub (Num 1) (Num sp)), rect_h = Num h\<rparr>"
      by (simp_all add: pw(1,2) del: js_mul.simps js_sub.simps)
    have l: "loc \<in> horizontal_locations"
      using 1 by (simp add: horizontal_locations_def)
    show ?thesis
      by (intro exI [of _ ?r] exI [of _ ?a] exI [of _ ?n]) (use g b c l hor(1) in blast)
  next
    case 2
    let ?n = "\<lparr>box_x = 0, box_y = 0, box_w = ?wa, box_h = h\<rparr>"
    let ?a = "\<lparr>box_x = ?wa, box_y = 0, box_w = ?wn, box_h = h\<rparr>"
    let ?r = "\<lparr>audience = \<lparr>rect_x = Num ?wa, rect_y = Num 0, rect_w = Num ?wn, rect_h = Num h\<rparr>,
              notes = \<lparr>rect_x = Num 0, rect_y = Num 0, rect_w = Num ?wa, rect_h = Num h\<rparr>\<rparr>"
    have g: "getRegions (Num w) (Num h) (Some loc) (Some (Num sp)) = Inr ?r"
      using 2 by (simp add: getRegions_def pw(1,2) del: js_mul.simps js_sub.simps)
    have b: "box_of (audience ?r) = Some ?a" "box_of (notes ?r) = Some ?n"
      by (simp_all add: box_of_def)
    have l: "loc \<in> horizontal_locations" "loc \<noteq> ''right''"
      using 2 by (simp_all add: horizontal_locations_def)
    show ?thesis
      by (intro exI [of _ ?r] exI [of _ ?a] exI [of _ ?n]) (use g b l hor(2) in blast)
  next
    case 3
    let ?n = "\<lparr>box_x = 0, box_y = 0, box_w = w, box_h = ?ha\<rparr>"
    let ?a = "\<lparr>box_x = 0, box_y = ?ha, box_w = w, box_h = ?hn\<rparr>"
    let ?r = "\<lparr>audience = \<lparr>rect_x = Num 0, rect_y = Num ?ha, rect_w = Num w, rect_h = Num ?hn\<rparr>,
              notes = \<lparr>rect_x = Num 0, rect_y = Num 0, rect_w = Num w, rect_h = Num ?ha\<rparr>\<rparr>"
    have g: "getRegions (Num w) (Num h) (Some loc) (Some (Num sp)) = Inr ?r"
      using 3 by (simp add: getRegions_def ph(1,2) del: js_mul.simps js_sub.simps)
    have b: "box_of (audience ?r) = Some ?a" "box_of (notes ?r) = Some ?n"
      by (simp_all add: box_of_def)
    have l: "loc \<notin> horizontal_locations" "loc \<noteq> ''right''"
      using 3 by (simp_all add: horizontal_locations_def)
    show ?thesis
      by (intro exI [of _ ?r] exI [of _ ?a] exI [of _ ?n]) (use g b l ver(2) in blast)
  next
    case 4
    let ?a = "\<lparr>box_x = 0, box_y = 0, box_w = w, box_h = ?ha\<rparr>"
    let ?n = "\<lparr>box_x = 0, box_y = ?ha, box_w = w, box_h = ?hn\<rparr>"
    let ?r = "\<lparr>audience = \<lparr>rect_x = Num 0, rect_y = Num 0, rect_w = Num w, rect_h = Num ?ha\<rparr>,
              notes = \<lparr>rect_x = Num 0, rect_y = Num ?ha, rect_w = Num w, rect_h = Num ?hn\<rparr>\<rparr>"
    have g: "getRegions (Num w) (Num h) (Some loc) (Some (Num sp)) = Inr ?r"
      using 4 by (simp add: getRegions_def ph(1,2) del: js_mul.simps js_sub.simps)
    have b: "box_of (audience ?r) = Some ?a" "box_of (notes ?r) = Some ?n"
      by (simp_all add: box_of_def)
    have l: "loc \<notin> horizontal_locations" "loc \<noteq> ''right''"
      using 4 by (simp_all add: horizontal_locations_def)
    show ?thesis
      by (intro exI [of _ ?r] exI [of _ ?a] exI [of _ ?n]) (use g b l ver(1) in blast)
  qed
qed

theorem getRegions_partition_witness:
  "(0::real) < 800 \<and> 800 \<le> MAX_VALUE \<and> (0::real) < 600 \<and> 600 \<le> MAX_VALUE \<and>
   (0::real) < 1/4 \<and> (1/4::real) < 1 \<and> exact_split 800 (1/4) \<and>
   ''left'' \<in> valid_locations \<and> ''left'' \<in> horizontal_locations \<and>
   (\<exists>r a n. getRegions (Num 800) (Num 600) (Some ''left'') (Some (Num (1/4))) = Inr r \<and>
        box_of (audience r) = Some a \<and> box_of (notes r) = Some n \<and>
        \<not> (inside a (100, 50) \<and> inside n (100, 50)) \<and>
        (inside (full_page (box_w a + box_w n) 600) (100, 50) \<longleftrightarrow>
           inside a (100, 50) \<or> inside n (100, 50)) \<and>
        box_w a + box_w n = 800) \<and>
   ''top'' \<in> valid_locations \<and> ''top'' \<notin> horizontal_locations \<and>
   (\<exists>r a n. getRegions (Num 600) (Num 800) (Some ''top'') (Some (Num (1/4))) = Inr r \<and>
        box_of (audience r) = Some a \<and> box_of (notes r) = Some n \<and>
        \<not> (inside a (100, 50) \<and> inside n (100, 50)) \<and>
        (inside (full_page 600 (box_h a + box_h n)) (100, 50) \<longleftrightarrow>
           inside a (100, 50) \<or> inside n (100, 50)) \<and>
        box_h a + box_h n = 800) \<and>
   ''right'' \<in> valid_locations \<and>
   (\<exists>r. getRegions (Num 800) (Num 600) (Some ''right'') (Some (Num (1/4))) = Inr r \<and>
        audience r = \<lparr>rect_x = Num 0, rect_y = Num 0, rect_w = Num 200, rect_h = Num 600\<rparr> \<and>
        notes r = \<lparr>rect_x = Num 200, rect_y = Num 0, rect_w = Num 600, rect_h = Num 600\<rparr>)"
proof -
  have h: "(0::real) < 800" "800 \<le> MAX_VALUE" "(0::real) < 600" "600 \<le> MAX_VALUE"
    "(0::real) < 1/4" "(1/4::real) < 1"
    by (simp_all add: MAX_VALUE_def)
  have v: "''left'' \<in> valid_locations" "''top'' \<in> valid_locations" "''right'' \<in> valid_locations"
    by (simp_all add: valid_locations_def)
  have l: "''left'' \<in> horizontal_locations" "''top'' \<notin> horizontal_locations"
    by (simp_all add: horizontal_locations_def)
  note a = getRegions_partition [OF h(1,2,3,4,5,6) v(1), of "(100, 50)"]
  note b = getRegions_partition [OF h(3,4,1,2,5,6) v(2), of "(100, 50)"]
  note c = getRegions_partition [OF h(1,2,3,4,5,6) v(3), of "(100, 50)", unfolded quarter_products]
  from a l(1) quarter_exact have a': 
    "\<exists>r a n. getRegions (Num 800) (Num 600) (Some ''left'') (Some (Num (1/4))) = Inr r \<and>
        box_of (audience r) = Some a \<and> box_of (notes r) = Some n \<and>
        \<not> (inside a (100, 50) \<and> inside n (100, 50)) \<and>
        (inside (full_page (box_w a + box_w n) 600) (100, 50) \<longleftrightarrow>
           inside a (100, 50) \<or> inside n (100, 50)) \<and>
        box_w a + box_w n = 800"
    by blast
  from b l(2) quarter_exact have b':
    "\<exists>r a n. getRegions (Num 600) (Num 800) (Some ''top'') (Some (Num (1/4))) = Inr r \<and>
        box_of (audience r) = Some a \<and> box_of (notes r) = Some n \<and>
        \<not> (inside a (100, 50) \<and> inside n (100, 50)) \<and>
        (inside (full_page 600 (box_h a + box_h n)) (100, 50) \<longleftrightarrow>
           inside a (100, 50) \<or> inside n (100, 50)) \<and>
        box_h a + box_h n = 800"
    by blast
  from c have c':
    "\<exists>r. getRegions (Num 800) (Num 600) (Some ''right'') (Some (Num (1/4))) = Inr r \<and>
        audience r = \<lparr>rect_x = Num 0, rect_y = Num 0, rect_w = Num 200, rect_h = Num 600\<rparr> \<and>
        notes r = \<lparr>rect_x = Num 200, rect_y = Num 0, rect_w = Num 600, rect_h = Num 600\<rparr>"
    by blast
  from h v l quarter_exact a' b' c' show ?thesis
    by blast
qed

text \<open>
  C9 as the spec states it asks for a failure on a location outside the four. The
  function has no failing path: at \<open>''center''\<close> it returns normally.
\<close>

theorem getRegions_unknown_location_counterexample:
  "''center'' \<notin> valid_locations \<and>
   \<not> isl (getRegions (Num 800) (Num 600) (Some ''center'') (Some (Num (1/2))))"
  by (simp add: valid_locations_def getRegions_def)

text \<open>
  C9, amended. For a location outside the four, \<open>getRegions\<close> signals no error: it
  returns normally, and what it returns is one default that does not depend on the
  width, the height or the split ratio.
\<close>

theorem getRegions_unknown_location_silent:
  assumes "loc \<notin> valid_locations"
  shows "\<not> isl (getRegions width height (Some loc) split_arg) \<and>
         getRegions width height (Some loc) split_arg = getRegions width' height' (Some loc) split_arg'"
  using assms by (simp add: valid_locations_def getRegions_def Let_def)

theorem getRegions_unknown_location_silent_witness:
  "''diagonal'' \<notin> valid_locations \<and>
   \<not> isl (getRegions (Num 1024) (Num 768) (Some ''diagonal'') (Some (Num (1/4)))) \<and>
   getRegions (Num 1024) (Num 768) (Some ''diagonal'') (Some (Num (1/4))) =
     getRegions (Num 10) (Num 20) (Some ''diagonal'') None"
proof -
  have h: "''diagonal'' \<notin> valid_locations"
    by (simp add: valid_locations_def)
  from getRegions_unknown_location_silent
    [OF h, of "Num 1024" "Num 768" "Some (Num (1/4))" "Num 10" "Num 20" None] h
  show ?thesis by blast
qed

text \<open>
  C10. For a location outside the four, whatever the width, the height and the split
  ratio, \<open>getRegions\<close> returns normally and both regions are the zero rectangle. The
  function reads nothing but its arguments, so the presenter and the audience window
  compute the same default.
\<close>

theorem getRegions_default_zero:
  assumes "loc \<notin> valid_locations"
  shows "getRegions width height (Some loc) split_arg = Inr \<lparr>audience = zero_rect, notes = zero_rect\<rparr>"
  using assms by (simp add: valid_locations_def getRegions_def Let_def zero_rect_def)

theorem getRegions_default_zero_witness:
  "''middle'' \<notin> valid_locations \<and>
   getRegions (Num 1920) (Num 1080) (Some ''middle'') (Some (Num (3/4))) =
     Inr \<lparr>audience = zero_rect, notes = zero_rect\<rparr>"
  using getRegions_default_zero [of "''middle''" "Num 1920" "Num 1080" "Some (Num (3/4))"]
  by (simp add: valid_locations_def)

subsection \<open>Timer\<close>

text \<open>
  C8. Starting from stopped zeroes the accumulator and runs; starting from paused runs
  and keeps the accumulator; pausing a running timer stores the accumulator plus the
  time since the start and pauses; a reset from any state stops with zero elapsed and
  no start time; while running, the elapsed time is the accumulator plus the time since
  the start, read from the clock at the call, and a tick of the interval rewrites the
  display only: it changes no field of the application state.
\<close>

theorem timer_state_machine:
  fixes s :: presenter
  shows
    "(timerState s = Stopped \<longrightarrow>
        timerState (startTimer now nd s) = Running \<and>
        timerElapsed (startTimer now nd s) = 0 \<and>
        timerStartTime (startTimer now nd s) = Some now \<and>
        getElapsedTime now (startTimer now nd s) = 0 \<and>
        getElapsedTime later (pauseTimer (now + 2000) (startTimer now nd s)) = 2000) \<and>
     (timerState s = Paused \<longrightarrow>
        timerState (startTimer now nd s) = Running \<and>
        timerElapsed (startTimer now nd s) = timerElapsed s \<and>
        timerStartTime (startTimer now nd s) = Some now \<and>
        getElapsedTime later (startTimer now nd s) = timerElapsed s + (later - now)) \<and>
     (timerState s = Running \<longrightarrow>
        timerState (pauseTimer now s) = Paused \<and>
        timerElapsed (pauseTimer now s) = timerElapsed s + (now - startTimestamp s) \<and>
        getElapsedTime later (pauseTimer now s) = timerElapsed s + (now - startTimestamp s) \<and>
        getElapsedTime now s = timerElapsed s + (now - startTimestamp s)) \<and>
     (timerState s \<noteq> Running \<longrightarrow> startTimestamp (startTimer now nd s) = now) \<and>
     timerState (resetTimer s) = Stopped \<and>
     timerElapsed (resetTimer s) = 0 \<and>
     timerStartTime (resetTimer s) = None \<and>
     getElapsedTime now (resetTimer s) = 0 \<and>
     app_state (timer_tick now s) = app_state s \<and>
     getElapsedTime later (timer_tick now s) = getElapsedTime later s"
proof -
  have start_stopped: "timerState s = Stopped \<longrightarrow>
        timerState (startTimer now nd s) = Running \<and>
        timerElapsed (startTimer now nd s) = 0 \<and>
        timerStartTime (startTimer now nd s) = Some now \<and>
        getElapsedTime now (startTimer now nd s) = 0 \<and>
        getElapsedTime later (pauseTimer (now + 2000) (startTimer now nd s)) = 2000"
    by (simp add: startTimer_def pauseTimer_def updateTimerDisplay_def getElapsedTime_def Let_def)
  have start_paused: "timerState s = Paused \<longrightarrow>
        timerState (startTimer now nd s) = Running \<and>
        timerElapsed (startTimer now nd s) = timerElapsed s \<and>
        timerStartTime (startTimer now nd s) = Some now \<and>
        getElapsedTime later (startTimer now nd s) = timerElapsed s + (later - now)"
    by (simp add: startTimer_def updateTimerDisplay_def getElapsedTime_def Let_def)
  have pause_running: "timerState s = Running \<longrightarrow>
        timerState (pauseTimer now s) = Paused \<and>
        timerElapsed (pauseTimer now s) = timerElapsed s + (now - startTimestamp s) \<and>
        getElapsedTime later (pauseTimer now s) = timerElapsed s + (now - startTimestamp s) \<and>
        getElapsedTime now s = timerElapsed s + (now - startTimestamp s)"
    by (simp add: pauseTimer_def updateTimerDisplay_def getElapsedTime_def startTimestamp_def Let_def)
  have start_stamp: "timerState s \<noteq> Running \<longrightarrow> startTimestamp (startTimer now nd s) = now"
    by (simp add: startTimer_def updateTimerDisplay_def startTimestamp_def Let_def)
  have reset: "timerState (resetTimer s) = Stopped \<and> timerElapsed (resetTimer s) = 0 \<and>
     timerStartTime (resetTimer s) = None \<and> getElapsedTime now (resetTimer s) = 0"
    by (simp add: resetTimer_def getElapsedTime_def)
  have tick: "app_state (timer_tick now s) = app_state s \<and>
     getElapsedTime later (timer_tick now s) = getElapsedTime later s"
    by (simp add: timer_tick_def updateTimerDisplay_def app_state_def getElapsedTime_def)
  from start_stopped start_paused pause_running start_stamp reset tick show ?thesis
    by blast
qed

theorem timer_state_machine_witness:
  "timerState startup = Stopped \<and>
   timerState (startTimer 5000 5001 startup) = Running \<and>
   timerElapsed (pauseTimer 7000 (startTimer 5000 5001 startup)) = 2000 \<and>
   timerState (startTimer 9000 9000 (pauseTimer 7000 (startTimer 5000 5001 startup))) = Running \<and>
   timerElapsed (startTimer 9000 9000 (pauseTimer 7000 (startTimer 5000 5001 startup))) = 2000 \<and>
   getElapsedTime 9500 (startTimer 9000 9000 (pauseTimer 7000 (startTimer 5000 5001 startup))) = 2500 \<and>
   getElapsedTime 9500 (resetTimer (startTimer 5000 5001 startup)) = 0"
proof -
  let ?running = "startTimer 5000 5001 startup"
  let ?paused = "pauseTimer 7000 ?running"
  have stopped: "timerState startup = Stopped"
    by (simp add: startup_def)
  note a = timer_state_machine [of startup 5000 5001 7000]
  have running: "timerState ?running = Running"
    using a stopped by simp
  have stamp: "startTimestamp ?running = 5000"
    using a stopped by simp
  have el: "timerElapsed ?running = 0"
    using a stopped by simp
  note b = timer_state_machine [of ?running 7000 0 9500]
  have paused: "timerState ?paused = Paused"
    using b running by simp
  have pel: "timerElapsed ?paused = 2000"
    using b running stamp el by simp
  note c = timer_state_machine [of ?paused 9000 9000 9500]
  note d = timer_state_machine [of ?running 9500 0 0]
  from stopped running paused pel c d show ?thesis
    by simp
qed

subsection \<open>Handshake\<close>

lemma sendToAudience_posted:
  "messages_posted (sendToAudience ty pl s) =
     (if audience_available s
      then messages_posted s @ [\<lparr>msg_sessionId = sessionId s, msg_type = ty, msg_payload = pl\<rparr>]
      else messages_posted s)"
  by (auto simp: audience_available_def messages_posted_def sendToAudience_def postMessage_def
      split: option.splits)

lemma sendToAudience_unavailable:
  "\<not> audience_available s \<Longrightarrow> sendToAudience ty pl s = s"
  by (auto simp: audience_available_def sendToAudience_def split: option.splits)

lemma sendToAudience_keeps_available:
  "audience_available (sendToAudience ty pl s) = audience_available s"
  by (auto simp: audience_available_def sendToAudience_def postMessage_def split: option.splits)

lemma sendToAudience_fields:
  "pdfData (sendToAudience ty pl s) = pdfData s"
  "sessionId (sendToAudience ty pl s) = sessionId s"
  "currentPage (sendToAudience ty pl s) = currentPage s"
  "totalPages (sendToAudience ty pl s) = totalPages s"
  "location (sendToAudience ty pl s) = location s"
  "split (sendToAudience ty pl s) = split s"
  "displayMode (sendToAudience ty pl s) = displayMode s"
  "isAudienceConnected (sendToAudience ty pl s) = isAudienceConnected s"
  by (simp_all add: sendToAudience_def split: option.splits)

lemma audience_available_connected:
  "audience_available (s\<lparr>isAudienceConnected := b\<rparr>) = audience_available s"
  "messages_posted (s\<lparr>isAudienceConnected := b\<rparr>) = messages_posted s"
  by (simp_all add: audience_available_def messages_posted_def)

lemma updateConnectionStatus_keeps:
  "messages_posted (updateConnectionStatus s) = messages_posted s"
  "audience_available (updateConnectionStatus s) = audience_available s"
  "isAudienceConnected (updateConnectionStatus s) = isAudienceConnected s"
  "pdfData (updateConnectionStatus s) = pdfData s"
  "resync_messages (updateConnectionStatus s) = resync_messages s"
  by (simp_all add: updateConnectionStatus_def messages_posted_def audience_available_def
      resync_messages_def Let_def split: option.splits)

lemma hello_unfold:
  assumes "ev_type d = Some HELLO"
  shows "presenterMessageListener (Some d) s =
           updateConnectionStatus
             (if pdfData s \<noteq> None
              then sendPdfDataToAudience (sendStateToAudience (s\<lparr>isAudienceConnected := True\<rparr>))
              else sendStateToAudience (s\<lparr>isAudienceConnected := True\<rparr>))"
  using assms
  by (simp add: presenterMessageListener_def handleAudienceMessage_def HELLO_def Let_def
      sendStateToAudience_def sendToAudience_fields)

lemma sendStateToAudience_posted:
  "messages_posted (sendStateToAudience s) =
     (if audience_available s
      then messages_posted s @
        [\<lparr>msg_sessionId = sessionId s, msg_type = STATE,
          msg_payload = StatePayload (currentPage s) (totalPages s) (location s) (split s) (displayMode s)\<rparr>]
      else messages_posted s)"
  by (simp add: sendStateToAudience_def sendToAudience_posted)

lemma sendStateToAudience_keeps:
  "audience_available (sendStateToAudience s) = audience_available s"
  "pdfData (sendStateToAudience s) = pdfData s"
  "sessionId (sendStateToAudience s) = sessionId s"
  "currentPage (sendStateToAudience s) = currentPage s"
  "totalPages (sendStateToAudience s) = totalPages s"
  "location (sendStateToAudience s) = location s"
  "split (sendStateToAudience s) = split s"
  "displayMode (sendStateToAudience s) = displayMode s"
  "isAudienceConnected (sendStateToAudience s) = isAudienceConnected s"
  by (simp_all add: sendStateToAudience_def sendToAudience_fields sendToAudience_keeps_available)

lemma sendPdfDataToAudience_posted:
  "messages_posted (sendPdfDataToAudience s) =
     (case pdfData s of
        None \<Rightarrow> messages_posted s
      | Some buf \<Rightarrow>
          if audience_available s
          then messages_posted s @
            [\<lparr>msg_sessionId = sessionId s, msg_type = PDF_DATA,
              msg_payload = PdfDataPayload buf (location s) (split s)\<rparr>]
          else messages_posted s)"
  by (simp add: sendPdfDataToAudience_def sendToAudience_posted split: option.splits)

lemma sendPdfDataToAudience_keeps:
  "audience_available (sendPdfDataToAudience s) = audience_available s"
  "pdfData (sendPdfDataToAudience s) = pdfData s"
  "sessionId (sendPdfDataToAudience s) = sessionId s"
  "currentPage (sendPdfDataToAudience s) = currentPage s"
  "totalPages (sendPdfDataToAudience s) = totalPages s"
  "location (sendPdfDataToAudience s) = location s"
  "split (sendPdfDataToAudience s) = split s"
  "displayMode (sendPdfDataToAudience s) = displayMode s"
  "isAudienceConnected (sendPdfDataToAudience s) = isAudienceConnected s"
  by (simp_all add: sendPdfDataToAudience_def sendToAudience_fields sendToAudience_keeps_available
      split: option.splits)

lemma resync_messages_eq:
  "sessionId s' = sessionId s \<Longrightarrow> currentPage s' = currentPage s \<Longrightarrow>
   totalPages s' = totalPages s \<Longrightarrow> location s' = location s \<Longrightarrow> split s' = split s \<Longrightarrow>
   displayMode s' = displayMode s \<Longrightarrow> pdfData s' = pdfData s \<Longrightarrow>
   resync_messages s' = resync_messages s"
  by (simp add: resync_messages_def split: option.splits)

lemma hello_posts:
  fixes s :: presenter
  assumes "ev_type d = Some HELLO"
  shows "messages_posted (presenterMessageListener (Some d) s) =
           (if audience_available s then messages_posted s @ resync_messages s else messages_posted s)"
proof (cases "pdfData s")
  case None
  then show ?thesis
    by (simp add: hello_unfold [OF assms] updateConnectionStatus_keeps
        sendStateToAudience_posted audience_available_connected resync_messages_def)
next
  case (Some buf)
  then show ?thesis
    by (simp add: hello_unfold [OF assms] updateConnectionStatus_keeps
        sendPdfDataToAudience_posted sendStateToAudience_posted sendStateToAudience_keeps
        audience_available_connected resync_messages_def)
qed

lemma hello_keeps:
  fixes s :: presenter
  assumes "ev_type d = Some HELLO"
  shows "isAudienceConnected (presenterMessageListener (Some d) s)"
    and "pdfData (presenterMessageListener (Some d) s) = pdfData s"
    and "audience_available (presenterMessageListener (Some d) s) = audience_available s"
    and "resync_messages (presenterMessageListener (Some d) s) = resync_messages s"
proof -
  let ?sent = "if pdfData s \<noteq> None
              then sendPdfDataToAudience (sendStateToAudience (s\<lparr>isAudienceConnected := True\<rparr>))
              else sendStateToAudience (s\<lparr>isAudienceConnected := True\<rparr>)"
  have eq: "presenterMessageListener (Some d) s = updateConnectionStatus ?sent"
    by (rule hello_unfold [OF assms])
  have c: "isAudienceConnected ?sent"
    by (simp add: sendPdfDataToAudience_keeps sendStateToAudience_keeps)
  have p: "pdfData ?sent = pdfData s"
    by (simp add: sendPdfDataToAudience_keeps sendStateToAudience_keeps)
  have a: "audience_available ?sent = audience_available s"
    by (simp add: sendPdfDataToAudience_keeps sendStateToAudience_keeps audience_available_connected)
  have r: "resync_messages ?sent = resync_messages s"
    by (rule resync_messages_eq)
      (simp_all add: sendPdfDataToAudience_keeps sendStateToAudience_keeps)
  show "isAudienceConnected (presenterMessageListener (Some d) s)"
    unfolding eq using c by (simp only: updateConnectionStatus_keeps)
  show "pdfData (presenterMessageListener (Some d) s) = pdfData s"
    unfolding eq using p by (simp only: updateConnectionStatus_keeps)
  show "audience_available (presenterMessageListener (Some d) s) = audience_available s"
    unfolding eq using a by (simp only: updateConnectionStatus_keeps)
  show "resync_messages (presenterMessageListener (Some d) s) = resync_messages s"
    unfolding eq using r by (simp only: updateConnectionStatus_keeps)
qed

lemma hello_repeated:
  fixes s :: presenter
  assumes "ev_type d = Some HELLO" "audience_available s"
  shows "messages_posted ((presenterMessageListener (Some d) ^^ n) s) =
           messages_posted s @ concat (replicate n (resync_messages s)) \<and>
         audience_available ((presenterMessageListener (Some d) ^^ n) s) \<and>
         resync_messages ((presenterMessageListener (Some d) ^^ n) s) = resync_messages s"
proof (induction n)
  case 0
  show ?case using assms(2) by simp
next
  case (Suc n)
  let ?t = "(presenterMessageListener (Some d) ^^ n) s"
  from Suc.IH have av: "audience_available ?t" and rs: "resync_messages ?t = resync_messages s"
    and ps: "messages_posted ?t = messages_posted s @ concat (replicate n (resync_messages s))"
    by simp_all
  have rep: "concat (replicate n xs) @ xs = concat (replicate (Suc n) xs)" for xs :: "message list"
    by (induction n) simp_all
  have "messages_posted (presenterMessageListener (Some d) ?t) = messages_posted ?t @ resync_messages ?t"
    using av by (simp add: hello_posts [OF assms(1)])
  also have "\<dots> = messages_posted s @ concat (replicate (Suc n) (resync_messages s))"
    unfolding ps rs using rep [of "resync_messages s"] by (simp only: append_assoc)
  finally have posted: "messages_posted ((presenterMessageListener (Some d) ^^ Suc n) s) =
      messages_posted s @ concat (replicate (Suc n) (resync_messages s))"
    by (simp only: funpow.simps o_apply)
  have "audience_available (presenterMessageListener (Some d) ?t)"
    using av by (simp only: hello_keeps [OF assms(1)])
  moreover have "resync_messages (presenterMessageListener (Some d) ?t) = resync_messages s"
    using rs by (simp only: hello_keeps [OF assms(1)])
  ultimately show ?case
    using posted by (simp only: funpow.simps o_apply simp_thms)
qed

text \<open>
  C2 as the spec states it has every HELLO answered by a STATE message. With the
  audience handle closed (or absent), the guard of \<open>sendToAudience\<close> drops both sends:
  the handler marks the audience connected and posts nothing.
\<close>

theorem hello_closed_window_counterexample:
  "audienceWindow
     (presenterMessageListener hello_event
        (loaded_session\<lparr>audienceWindow := Some closed_window\<rparr>))
   = Some \<lparr>window_closed = True, posted = []\<rparr> \<and>
   isAudienceConnected
     (presenterMessageListener hello_event
        (loaded_session\<lparr>audienceWindow := Some closed_window\<rparr>))"
  by (simp add: presenterMessageListener_def handleAudienceMessage_def hello_event_def HELLO_def
      Let_def sendStateToAudience_def sendPdfDataToAudience_def sendToAudience_def
      updateConnectionStatus_def closed_window_def loaded_session_def startup_def)

text \<open>
  C2, amended. For every received HELLO the handler marks the audience connected and
  leaves the document bytes as they are. If the audience handle is present and not
  closed, it posts a STATE message and then, if and only if document bytes are loaded,
  a PDF_DATA message carrying a copy of them; if the handle is absent or closed it
  posts nothing. What is posted depends on the current state only: each of any
  number of HELLOs in a row gets the same full resync.
\<close>

theorem hello_resync:
  fixes s :: presenter
  assumes "ev_type d = Some HELLO"
  shows "isAudienceConnected (presenterMessageListener (Some d) s) \<and>
         pdfData (presenterMessageListener (Some d) s) = pdfData s \<and>
         (audience_available s \<longrightarrow>
            messages_posted (presenterMessageListener (Some d) s) =
              messages_posted s @ resync_messages s) \<and>
         (\<not> audience_available s \<longrightarrow>
            messages_posted (presenterMessageListener (Some d) s) = messages_posted s) \<and>
         map msg_type (resync_messages s) = (if pdfData s = None then [STATE] else [STATE, PDF_DATA]) \<and>
         (audience_available s \<longrightarrow>
            messages_posted ((presenterMessageListener (Some d) ^^ n) s) =
              messages_posted s @ concat (replicate n (resync_messages s)))"
proof -
  have types: "map msg_type (resync_messages s) = (if pdfData s = None then [STATE] else [STATE, PDF_DATA])"
    by (simp add: resync_messages_def split: option.splits)
  show ?thesis
    using hello_keeps(1,2) [OF assms, of s] hello_posts [OF assms, of s]
      hello_repeated [OF assms, of s n] types
    by simp
qed

theorem hello_resync_witness:
  "ev_type \<lparr>ev_sessionId = Some ''3f2c9a'', ev_type = Some HELLO, ev_payload = None\<rparr> = Some HELLO \<and>
   audience_available (loaded_session\<lparr>audienceWindow := Some open_window\<rparr>) \<and>
   map msg_type
     (messages_posted
        ((presenterMessageListener
            (Some \<lparr>ev_sessionId = Some ''3f2c9a'', ev_type = Some HELLO, ev_payload = None\<rparr>) ^^ 2)
           (loaded_session\<lparr>audienceWindow := Some open_window\<rparr>)))
     = [STATE, PDF_DATA, STATE, PDF_DATA]"
proof -
  let ?d = "\<lparr>ev_sessionId = Some ''3f2c9a'', ev_type = Some HELLO, ev_payload = None\<rparr>"
  let ?s = "loaded_session\<lparr>audienceWindow := Some open_window\<rparr>"
  have h: "ev_type ?d = Some HELLO"
    by simp
  have av: "audience_available ?s"
    by (simp add: audience_available_def open_window_def)
  have p0: "messages_posted ?s = []"
    by (simp add: messages_posted_def open_window_def)
  have pd: "pdfData ?s \<noteq> None"
    by (simp add: loaded_session_def)
  from hello_resync [OF h, of ?s 2] av p0 pd
  have "map msg_type (messages_posted ((presenterMessageListener (Some ?d) ^^ 2) ?s)) =
          [STATE, PDF_DATA, STATE, PDF_DATA]"
    by (simp add: numeral_2_eq_2)
  with h av show ?thesis
    by blast
qed

subsection \<open>Navigation\<close>

lemma render_frame_refl: "render_frame s s"
  by (simp add: render_frame_def)

lemma render_frame_trans: "render_frame s t \<Longrightarrow> render_frame t u \<Longrightarrow> render_frame s u"
  unfolding render_frame_def
  by (cases s, cases t, cases u) simp

lemma render_frame_fields:
  assumes "render_frame s s'"
  shows "currentPage s' = currentPage s" "totalPages s' = totalPages s"
    "audienceWindow s' = audienceWindow s" "sessionId s' = sessionId s"
    "presenterPointer s' = presenterPointer s" "pdfDoc s' = pdfDoc s"
    "pdfData s' = pdfData s" "showNextPreview s' = showNextPreview s"
    "scale s' = scale s" "location s' = location s" "split s' = split s"
    "lastPointerSendTime s' = lastPointerSendTime s" "isPointerActive s' = isPointerActive s"
  using assms unfolding render_frame_def
  by (cases s, cases s', simp)+

lemma renderFullPage_frame:
  fixes s :: presenter
  shows "render_frame s (snd (renderFullPage pageNum scale_arg s))"
  by (simp add: renderFullPage_def render_frame_def Let_def split: option.splits sum.splits)

lemma showToast_frame: "render_frame s (showToast msg ty s)"
  by (simp add: showToast_def render_frame_def)

lemma extractRegion_frame: "render_frame s (extractRegion source tgt region s)"
  by (simp add: extractRegion_def render_frame_def split: target.splits)

lemma renderAudienceSlide_frame: "render_frame s (snd (renderAudienceSlide tgt pageNum s))"
proof -
  have "render_frame s (snd (renderFullPage pageNum (Some (scale s)) s))"
    by (rule renderFullPage_frame)
  then show ?thesis
    by (auto simp: renderAudienceSlide_def render_frame_refl Let_def
        split: prod.splits sum.splits
        intro: render_frame_trans extractRegion_frame)
qed

lemma renderNotesArea_frame: "render_frame s (snd (renderNotesArea tgt pageNum s))"
proof -
  have "render_frame s (snd (renderFullPage pageNum (Some (fl (scale s * 1.5))) s))"
    by (rule renderFullPage_frame)
  then show ?thesis
    by (auto simp: renderNotesArea_def render_frame_refl Let_def
        split: prod.splits sum.splits
        intro: render_frame_trans extractRegion_frame)
qed

lemma renderCurrentPage_frame: "render_frame s (renderCurrentPage s)"
proof -
  let ?page = "currentPage s"
  obtain r1 s1 where a: "renderAudienceSlide CurrentPreviewTarget ?page s = (r1, s1)"
    by (cases "renderAudienceSlide CurrentPreviewTarget ?page s")
  obtain r2 s2 where b: "renderNotesArea NotesCanvasTarget ?page s1 = (r2, s2)"
    by (cases "renderNotesArea NotesCanvasTarget ?page s1")
  obtain r3 s3 where c: "renderAudienceSlide NextPreviewTarget (?page + 1)
      (s2\<lparr>nextPreviewSection_hidden := False\<rparr>) = (r3, s3)"
    by (cases "renderAudienceSlide NextPreviewTarget (?page + 1) (s2\<lparr>nextPreviewSection_hidden := False\<rparr>)")
  have f1: "render_frame s s1"
    using renderAudienceSlide_frame [of s CurrentPreviewTarget ?page] a by simp
  have f2: "render_frame s1 s2"
    using renderNotesArea_frame [of s1 NotesCanvasTarget ?page] b by simp
  have f12: "render_frame s s2"
    using f1 f2 by (rule render_frame_trans)
  have fh: "render_frame s2 (s2\<lparr>nextPreviewSection_hidden := h\<rparr>)" for h
    by (simp add: render_frame_def)
  have f3: "render_frame (s2\<lparr>nextPreviewSection_hidden := False\<rparr>) s3"
    using renderAudienceSlide_frame [of "s2\<lparr>nextPreviewSection_hidden := False\<rparr>" NextPreviewTarget "?page + 1"] c
    by simp
  have f13: "render_frame s s3"
    using f12 fh f3 by (blast intro: render_frame_trans)
  have t: "render_frame s u \<Longrightarrow> render_frame s (showToast msg ty u)" for u msg ty
    using showToast_frame by (blast intro: render_frame_trans)
  show ?thesis
    using a b c f1 f12 f13 fh t
    by (auto simp: renderCurrentPage_def Let_def split: sum.splits intro: render_frame_trans)
qed


lemma sendNavigateToAudience_posted:
  "messages_posted (sendNavigateToAudience page s) =
     (if audience_available s
      then messages_posted s @
        [\<lparr>msg_sessionId = sessionId s, msg_type = NAVIGATE, msg_payload = NavigatePayload page\<rparr>]
      else messages_posted s)"
  by (simp add: sendNavigateToAudience_def sendToAudience_posted)

lemma sendToAudience_more_fields:
  fixes s :: presenter
  shows "presenterPointer (sendToAudience ty pl s) = presenterPointer s"
    "lastPointerSendTime (sendToAudience ty pl s) = lastPointerSendTime s"
    "isPointerActive (sendToAudience ty pl s) = isPointerActive s"
  by (simp_all add: sendToAudience_def split: option.splits)

lemma frame_posted:
  assumes "render_frame s s'"
  shows "messages_posted s' = messages_posted s" "audience_available s' = audience_available s"
  using render_frame_fields(3) [OF assms]
  by (simp_all add: messages_posted_def audience_available_def)

lemma navigateTo_in_range:
  assumes "1 \<le> page" "page \<le> totalPages s"
  shows "currentPage (navigateTo page s) = page"
    and "pointer_hidden (presenterPointer (navigateTo page s))"
    and "messages_posted (navigateTo page s) =
          (if audience_available s
           then messages_posted s @ [pointer_off s, navigate_message page s]
           else messages_posted s)"
proof -
  let ?s1 = "s\<lparr>currentPage := page\<rparr>"
  let ?s2 = "sendPointerToAudience None None False ?s1"
  let ?s3 = "?s2\<lparr>presenterPointer := (presenterPointer ?s2)\<lparr>pointer_hidden := True\<rparr>\<rparr>"
  let ?s4 = "renderCurrentPage ?s3"
  have nav: "navigateTo page s = sendNavigateToAudience page ?s4"
    using assms by (simp add: navigateTo_def Let_def)
  have fr: "render_frame ?s3 ?s4"
    by (rule renderCurrentPage_frame)
  note f = render_frame_fields [OF fr] frame_posted [OF fr]
  have av: "audience_available ?s3 = audience_available s"
    by (simp add: audience_available_def sendPointerToAudience_def sendToAudience_def postMessage_def
        split: option.splits)
  have p3: "messages_posted ?s3 =
      (if audience_available s then messages_posted s @ [pointer_off s] else messages_posted s)"
    by (simp add: audience_available_def messages_posted_def sendPointerToAudience_def
        sendToAudience_def postMessage_def pointer_off_def split: option.splits)
  have sid: "sessionId ?s4 = sessionId s"
    using f(4) by (simp add: sendPointerToAudience_def sendToAudience_fields)
  show "currentPage (navigateTo page s) = page"
    unfolding nav using f(1)
    by (simp add: sendNavigateToAudience_def sendPointerToAudience_def sendToAudience_fields)
  show "pointer_hidden (presenterPointer (navigateTo page s))"
    unfolding nav using f(5)
    by (simp add: sendNavigateToAudience_def sendToAudience_more_fields)
  show "messages_posted (navigateTo page s) =
          (if audience_available s
           then messages_posted s @ [pointer_off s, navigate_message page s]
           else messages_posted s)"
    unfolding nav sendNavigateToAudience_posted f(14,15) av p3 sid
    by (simp add: navigate_message_def)
qed

text \<open>
  C5 as the spec states it has every in-range navigation broadcast NAVIGATE and clear
  the pointer remotely. Before an audience window has been opened there is no handle,
  and \<open>sendToAudience\<close> returns without posting: the page changes, nothing is sent.
\<close>

theorem navigateTo_no_audience_counterexample:
  "1 \<le> (3::int) \<and> 3 \<le> totalPages loaded_session \<and>
   currentPage (navigateTo 3 loaded_session) = 3 \<and>
   messages_posted (navigateTo 3 loaded_session) = []"
proof -
  have r: "1 \<le> (3::int)" "3 \<le> totalPages loaded_session"
    by (simp_all add: loaded_session_def startup_def)
  have na: "\<not> audience_available loaded_session" "messages_posted loaded_session = []"
    by (simp_all add: audience_available_def messages_posted_def loaded_session_def startup_def)
  from navigateTo_in_range(1,3) [OF r] na r show ?thesis
    by simp
qed

text \<open>
  C5, amended. For a page below 1 or above the page count, \<open>navigateTo\<close> returns the
  state it was given: no field changes and no message is posted. For a page in range
  it sets the current page, hides the presenter's pointer and, if the audience handle
  is present and not closed, posts a POINTER message with \<open>active\<close> false followed,
  after re-rendering, by NAVIGATE for the page; with no live audience handle it posts
  nothing.
\<close>

theorem navigateTo_bounds:
  "(page < 1 \<or> page > totalPages s \<longrightarrow> navigateTo page s = s) \<and>
   (1 \<le> page \<and> page \<le> totalPages s \<longrightarrow>
      currentPage (navigateTo page s) = page \<and>
      pointer_hidden (presenterPointer (navigateTo page s)) \<and>
      (audience_available s \<longrightarrow>
         messages_posted (navigateTo page s) =
           messages_posted s @ [pointer_off s, navigate_message page s]) \<and>
      (\<not> audience_available s \<longrightarrow> messages_posted (navigateTo page s) = messages_posted s))"
proof -
  have out: "page < 1 \<or> page > totalPages s \<longrightarrow> navigateTo page s = s"
    by (simp add: navigateTo_def)
  have inr: "1 \<le> page \<and> page \<le> totalPages s \<longrightarrow>
      currentPage (navigateTo page s) = page \<and>
      pointer_hidden (presenterPointer (navigateTo page s)) \<and>
      (audience_available s \<longrightarrow>
         messages_posted (navigateTo page s) =
           messages_posted s @ [pointer_off s, navigate_message page s]) \<and>
      (\<not> audience_available s \<longrightarrow> messages_posted (navigateTo page s) = messages_posted s)"
    using navigateTo_in_range [of page s] by simp
  from out inr show ?thesis ..
qed

theorem navigateTo_bounds_witness:
  "totalPages (loaded_session\<lparr>audienceWindow := Some open_window\<rparr>) = 10 \<and>
   audience_available (loaded_session\<lparr>audienceWindow := Some open_window\<rparr>) \<and>
   navigateTo 11 (loaded_session\<lparr>audienceWindow := Some open_window\<rparr>) =
     loaded_session\<lparr>audienceWindow := Some open_window\<rparr> \<and>
   navigateTo 0 (loaded_session\<lparr>audienceWindow := Some open_window\<rparr>) =
     loaded_session\<lparr>audienceWindow := Some open_window\<rparr> \<and>
   currentPage (navigateTo 10 (loaded_session\<lparr>audienceWindow := Some open_window\<rparr>)) = 10 \<and>
   map msg_type (messages_posted (navigateTo 10 (loaded_session\<lparr>audienceWindow := Some open_window\<rparr>)))
     = [POINTER, NAVIGATE]"
proof -
  let ?s = "loaded_session\<lparr>audienceWindow := Some open_window\<rparr>"
  have tp: "totalPages ?s = 10"
    by (simp add: loaded_session_def startup_def)
  have av: "audience_available ?s" "messages_posted ?s = []"
    by (simp_all add: audience_available_def messages_posted_def open_window_def)
  from navigateTo_bounds [of 11 ?s] navigateTo_bounds [of 0 ?s] navigateTo_bounds [of 10 ?s] tp av
  show ?thesis
    by (simp add: pointer_off_def navigate_message_def)
qed

subsection \<open>Page cache\<close>

lemma jsmap_set_new:
  "k \<notin> fst ` set m \<Longrightarrow> jsmap_set m k v = m @ [(k, v)]"
  by (induction m) auto

lemma jsmap_set_length: "length (jsmap_set m k v) \<le> Suc (length m)"
  by (induction m) auto

lemma jsmap_delete_first:
  assumes "distinct (map fst m)" "m \<noteq> []"
  shows "jsmap_delete m (jsmap_first_key m) = tl m"
proof (cases m)
  case Nil
  with assms(2) show ?thesis by simp
next
  case (Cons e rest)
  with assms(1) have "fst e \<notin> fst ` set rest"
    by simp
  then have "\<forall>x \<in> set rest. fst x \<noteq> fst e"
    by (metis imageI)
  then have "filter (\<lambda>x. fst x \<noteq> fst e) rest = rest"
    by (simp add: filter_id_conv)
  with Cons show ?thesis
    by (simp add: jsmap_delete_def jsmap_first_key_def)
qed

lemma jsmap_delete_first_length:
  "m \<noteq> [] \<Longrightarrow> length (jsmap_delete m (jsmap_first_key m)) < length m"
  by (cases m) (simp_all add: jsmap_delete_def jsmap_first_key_def le_imp_less_Suc)

lemma cache_store_new:
  assumes "distinct (map fst cache)" "key \<notin> fst ` set cache"
  shows "cache_store key cv cache =
           (if jsmap_size cache > 5 then tl cache else cache) @ [(key, cv)]"
proof (cases "jsmap_size cache > 5")
  case True
  then have ne: "cache \<noteq> []"
    by (auto simp: jsmap_size_def)
  have "key \<notin> fst ` set (tl cache)"
    using assms(2) ne by (cases cache) auto
  then show ?thesis
    using True by (simp add: cache_store_def Let_def jsmap_delete_first [OF assms(1) ne] jsmap_set_new)
next
  case False
  then show ?thesis
    using assms(2) by (simp add: cache_store_def Let_def jsmap_set_new)
qed

lemma cache_store_length:
  "length cache \<le> 6 \<Longrightarrow> length (cache_store key cv cache) \<le> 6"
proof (cases "jsmap_size cache > 5")
  case True
  assume "length cache \<le> 6"
  from True have ne: "cache \<noteq> []"
    by (auto simp: jsmap_size_def)
  from jsmap_delete_first_length [OF ne] \<open>length cache \<le> 6\<close>
  have "length (jsmap_delete cache (jsmap_first_key cache)) \<le> 5"
    by simp
  with jsmap_set_length [of "jsmap_delete cache (jsmap_first_key cache)" key cv] True
  show ?thesis
    by (simp add: cache_store_def Let_def)
next
  case False
  then have "length cache \<le> 5"
    by (simp add: jsmap_size_def)
  with jsmap_set_length [of cache key cv] False show ?thesis
    by (simp add: cache_store_def Let_def)
qed

lemma renderFullPage_cache_cases:
  fixes s :: presenter
  shows "pageCache (snd (renderFullPage p scale_arg s)) = pageCache s \<or>
         (\<exists>cv. jsmap_get (pageCache s) (cacheKey p (case scale_arg of None \<Rightarrow> 1 | Some r \<Rightarrow> r)) = None \<and>
               fst (renderFullPage p scale_arg s) = Inr cv \<and>
               pageCache (snd (renderFullPage p scale_arg s)) =
                 cache_store (cacheKey p (case scale_arg of None \<Rightarrow> 1 | Some r \<Rightarrow> r)) cv (pageCache s))"
  by (auto simp: renderFullPage_def Let_def split: option.splits sum.splits)

lemma renderFullPage_cache_bound:
  fixes s :: presenter
  assumes "length (pageCache s) \<le> 6"
  shows "length (pageCache (snd (renderFullPage p scale_arg s))) \<le> 6"
proof -
  from renderFullPage_cache_cases [of p scale_arg s]
  consider "pageCache (snd (renderFullPage p scale_arg s)) = pageCache s"
    | k cv where "pageCache (snd (renderFullPage p scale_arg s)) = cache_store k cv (pageCache s)"
    by blast
  then show ?thesis
  proof cases
    case 1
    with assms show ?thesis by simp
  next
    case 2
    with cache_store_length [OF assms, of k cv] show ?thesis by simp
  qed
qed

lemma render_requests_cache_bound:
  "length (pageCache s) \<le> 6 \<Longrightarrow> length (pageCache (render_requests reqs s)) \<le> 6"
proof (induction reqs arbitrary: s)
  case Nil
  then show ?case by simp
next
  case (Cons r reqs)
  obtain p sc where r: "r = (p, sc)"
    by (cases r)
  from Cons.prems have "length (pageCache (snd (renderFullPage p (Some sc) s))) \<le> 6"
    by (rule renderFullPage_cache_bound)
  then show ?case
    unfolding r by (simp add: Cons.IH)
qed

lemma renderFullPage_hit:
  fixes s :: presenter
  assumes "pdfDoc s \<noteq> None" "jsmap_get (pageCache s) (cacheKey p sc) = Some cv"
  shows "renderFullPage p (Some sc) s = (Inr cv, s)"
  using assms by (auto simp: renderFullPage_def Let_def split: option.splits)

lemma renderFullPage_not_stored:
  fixes s :: presenter
  assumes "stored_key p sc s = []"
  shows "pageCache (snd (renderFullPage p (Some sc) s)) = pageCache s"
  using assms
  by (auto simp: stored_key_def renderFullPage_def Let_def split: option.splits sum.splits if_splits)

lemma renderFullPage_stored:
  fixes s :: presenter
  assumes "distinct (map fst (pageCache s))" "stored_key p sc s \<noteq> []"
  shows "\<exists>cv. fst (renderFullPage p (Some sc) s) = Inr cv \<and>
           pageCache (snd (renderFullPage p (Some sc) s)) =
             (if jsmap_size (pageCache s) > 5 then tl (pageCache s) else pageCache s) @
             [(cacheKey p sc, cv)]"
proof -
  from assms(2) have miss: "jsmap_get (pageCache s) (cacheKey p sc) = None"
    and ok: "\<not> isl (fst (renderFullPage p (Some sc) s))"
    by (simp_all add: stored_key_def split: if_splits)
  from miss have new: "cacheKey p sc \<notin> fst ` set (pageCache s)"
    by (simp add: jsmap_get_def map_of_eq_None_iff)
  from renderFullPage_cache_cases [of p "Some sc" s] miss ok
  obtain cv where cv: "fst (renderFullPage p (Some sc) s) = Inr cv"
    and st: "pageCache (snd (renderFullPage p (Some sc) s)) = cache_store (cacheKey p sc) cv (pageCache s)"
    by (auto simp: renderFullPage_def Let_def split: option.splits sum.splits)
  from cv st cache_store_new [OF assms(1) new, of cv] show ?thesis
    by simp
qed

lemma renderFullPage_keys:
  fixes s :: presenter
  assumes "distinct (map fst (pageCache s))"
  shows "map fst (pageCache (snd (renderFullPage p (Some sc) s))) =
           (if stored_key p sc s = [] then map fst (pageCache s)
            else (if jsmap_size (pageCache s) > 5 then tl (map fst (pageCache s))
                  else map fst (pageCache s)) @ [cacheKey p sc])"
proof (cases "stored_key p sc s = []")
  case True
  then show ?thesis
    by (simp add: renderFullPage_not_stored)
next
  case False
  from renderFullPage_stored [OF assms False] False show ?thesis
    by (auto simp: map_tl)
qed

lemma stored_key_cases:
  "stored_key p sc s = [] \<or>
   (stored_key p sc s = [cacheKey p sc] \<and> cacheKey p sc \<notin> set (map fst (pageCache s)))"
  by (auto simp: stored_key_def jsmap_get_def map_of_eq_None_iff)

lemma renderFullPage_distinct:
  fixes s :: presenter
  assumes "distinct (map fst (pageCache s))"
  shows "distinct (map fst (pageCache (snd (renderFullPage p (Some sc) s))))"
proof -
  from stored_key_cases [of p sc s] show ?thesis
  proof
    assume "stored_key p sc s = []"
    with assms show ?thesis
      by (simp add: renderFullPage_not_stored)
  next
    assume a: "stored_key p sc s = [cacheKey p sc] \<and> cacheKey p sc \<notin> set (map fst (pageCache s))"
    then have new: "cacheKey p sc \<notin> set (map fst (pageCache s))"
      by simp
    have tl_new: "cacheKey p sc \<notin> set (tl (map fst (pageCache s)))"
      using new by (cases "pageCache s") auto
    have tl_dist: "distinct (tl (map fst (pageCache s)))"
      using assms by (rule distinct_tl)
    from a show ?thesis
      unfolding renderFullPage_keys [OF assms]
      using assms new tl_new tl_dist by simp
  qed
qed

lemma drop_drop_append:
  assumes "m \<le> length xs"
  shows "drop n (drop m xs @ ys) = drop (n + m) (xs @ ys)"
proof -
  from assms have "drop m xs @ ys = drop m (xs @ ys)"
    by simp
  then show ?thesis
    by (simp only: drop_drop)
qed

lemma render_requests_fifo:
  assumes "distinct (map fst (pageCache s))"
  shows "\<exists>n. map fst (pageCache (render_requests reqs s)) =
               drop n (map fst (pageCache s) @ insertion_log reqs s)"
  using assms
proof (induction reqs arbitrary: s)
  case Nil
  have "map fst (pageCache s) = drop 0 (map fst (pageCache s) @ [])"
    by simp
  then show ?case
    by (simp only: render_requests.simps insertion_log.simps) blast
next
  case (Cons r reqs)
  obtain p sc where r: "r = (p, sc)"
    by (cases r)
  let ?s1 = "snd (renderFullPage p (Some sc) s)"
  let ?keys = "map fst (pageCache s)"
  have d1: "distinct (map fst (pageCache ?s1))"
    using Cons.prems by (rule renderFullPage_distinct)
  from Cons.IH [OF d1] obtain n where
    n: "map fst (pageCache (render_requests reqs ?s1)) =
          drop n (map fst (pageCache ?s1) @ insertion_log reqs ?s1)"
    by blast
  have "\<exists>m. map fst (pageCache ?s1) = drop m (?keys @ stored_key p sc s) \<and>
            m \<le> length (?keys @ stored_key p sc s)"
  proof (cases "stored_key p sc s \<noteq> [] \<and> jsmap_size (pageCache s) > 5")
    case True
    then have "map fst (pageCache ?s1) = drop 1 (?keys @ stored_key p sc s)"
      using stored_key_cases [of p sc s]
      by (cases "pageCache s")
        (auto simp: renderFullPage_keys [OF Cons.prems] jsmap_size_def drop_Suc)
    moreover have "1 \<le> length (?keys @ stored_key p sc s)"
      using True by (simp add: jsmap_size_def)
    ultimately show ?thesis
      by blast
  next
    case False
    then have "map fst (pageCache ?s1) = drop 0 (?keys @ stored_key p sc s)"
      using stored_key_cases [of p sc s]
      by (auto simp: renderFullPage_keys [OF Cons.prems])
    then show ?thesis
      by blast
  qed
  then obtain m where m: "map fst (pageCache ?s1) = drop m (?keys @ stored_key p sc s)"
    and le: "m \<le> length (?keys @ stored_key p sc s)"
    by blast
  have "map fst (pageCache (render_requests (r # reqs) s)) =
          drop n (drop m (?keys @ stored_key p sc s) @ insertion_log reqs ?s1)"
    unfolding r using n m by simp
  also have "\<dots> = drop (n + m) (?keys @ insertion_log (r # reqs) s)"
    unfolding r using drop_drop_append [OF le, of n "insertion_log reqs ?s1"] by simp
  finally show ?case
    by blast
qed

lemma sample_render_miss:
  fixes s :: presenter
  assumes "pdfDoc s = Some sample_document" "devicePixelRatio s = 1" "1 \<le> p" "p \<le> 10"
    "jsmap_get (pageCache s) (p, 2) = None"
  shows "snd (renderFullPage p (Some 2) s) =
           s\<lparr>pageCache := cache_store (p, 2) (Canvas 1600 600) (pageCache s)\<rparr>"
  using assms
  by (simp add: renderFullPage_def cacheKey_def sample_document_def sample_page_def Let_def
      fl_exact_values)

lemma six_pages_cache:
  "pageCache (render_requests six_pages loaded_session) =
     [((1, 2), Canvas 1600 600), ((2, 2), Canvas 1600 600), ((3, 2), Canvas 1600 600),
      ((4, 2), Canvas 1600 600), ((5, 2), Canvas 1600 600), ((6, 2), Canvas 1600 600)]"
  by (simp add: six_pages_def sample_render_miss loaded_session_def startup_def jsmap_get_def
      cache_store_def jsmap_size_def Let_def)

text \<open>
  C3 states a bound of 5 entries. The test before the store is \<open>size > 5\<close>, so a
  cache of 5 entries takes a sixth without evicting: after six pages have been rendered
  the cache holds 6 entries. (It never holds more: \<open>render_requests_cache_bound\<close>.)
\<close>

theorem page_cache_reaches_six:
  "jsmap_size (pageCache loaded_session) = 0 \<and>
   jsmap_size (pageCache (render_requests six_pages loaded_session)) = 6"
  by (simp add: six_pages_cache jsmap_size_def) (simp add: loaded_session_def startup_def)

text \<open>
  C4. Take a cache that, as a \<^verbatim>\<open>Map\<close> does, holds each key once (every render keeps
  it so). A cache hit returns the stored raster and leaves the state, and so the order
  of the cache, as it is. A render that stores its result appends the new entry at the
  back, after removing the entry at the front if the cache held more than 5. Hence
  over any run of render requests the keys in the cache are a final segment of the
  sequence of keys in the order they were stored: whatever has been evicted was stored
  before everything that is left, however recently it was read.
\<close>

theorem page_cache_fifo:
  fixes s :: presenter
  assumes "distinct (map fst (pageCache s))"
  shows "(pdfDoc s \<noteq> None \<and> jsmap_get (pageCache s) (cacheKey p sc) = Some cv \<longrightarrow>
            renderFullPage p (Some sc) s = (Inr cv, s)) \<and>
         (stored_key p sc s = [] \<longrightarrow>
            pageCache (snd (renderFullPage p (Some sc) s)) = pageCache s) \<and>
         (stored_key p sc s \<noteq> [] \<longrightarrow>
            map fst (pageCache (snd (renderFullPage p (Some sc) s))) =
              (if jsmap_size (pageCache s) > 5 then tl (map fst (pageCache s))
               else map fst (pageCache s)) @ [cacheKey p sc]) \<and>
         (\<exists>n. map fst (pageCache (render_requests reqs s)) =
                drop n (map fst (pageCache s) @ insertion_log reqs s))"
proof -
  have hit: "pdfDoc s \<noteq> None \<and> jsmap_get (pageCache s) (cacheKey p sc) = Some cv \<longrightarrow>
            renderFullPage p (Some sc) s = (Inr cv, s)"
    by (simp add: renderFullPage_hit)
  have same: "stored_key p sc s = [] \<longrightarrow>
            pageCache (snd (renderFullPage p (Some sc) s)) = pageCache s"
    by (simp add: renderFullPage_not_stored)
  have store: "stored_key p sc s \<noteq> [] \<longrightarrow>
            map fst (pageCache (snd (renderFullPage p (Some sc) s))) =
              (if jsmap_size (pageCache s) > 5 then tl (map fst (pageCache s))
               else map fst (pageCache s)) @ [cacheKey p sc]"
    by (simp add: renderFullPage_keys [OF assms])
  from hit same store render_requests_fifo [OF assms, of reqs] show ?thesis
    by blast
qed

theorem page_cache_fifo_witness:
  "distinct (map fst (pageCache (render_requests six_pages loaded_session))) \<and>
   map fst (pageCache (render_requests six_pages loaded_session)) =
     [(1, 2), (2, 2), (3, 2), (4, 2), (5, 2), (6, 2)] \<and>
   pageCache (snd (renderFullPage 1 (Some 2) (render_requests six_pages loaded_session))) =
     pageCache (render_requests six_pages loaded_session) \<and>
   map fst (pageCache (render_requests eviction_run loaded_session)) =
     [(2, 2), (3, 2), (4, 2), (5, 2), (6, 2), (7, 2)]"
proof -
  let ?s = "render_requests six_pages loaded_session"
  have keys: "map fst (pageCache ?s) = [(1, 2), (2, 2), (3, 2), (4, 2), (5, 2), (6, 2)]"
    by (simp add: six_pages_cache)
  have d: "distinct (map fst (pageCache ?s))"
    unfolding keys by simp
  have doc: "pdfDoc ?s \<noteq> None"
    by (simp add: six_pages_def sample_render_miss loaded_session_def startup_def jsmap_get_def
        cache_store_def jsmap_size_def Let_def)
  have get: "jsmap_get (pageCache ?s) (cacheKey 1 2) = Some (Canvas 1600 600)"
    by (simp add: six_pages_cache jsmap_get_def cacheKey_def)
  from page_cache_fifo [OF d, of 1 2 "Canvas 1600 600" "[]"] doc get
  have hit: "renderFullPage 1 (Some 2) ?s = (Inr (Canvas 1600 600), ?s)"
    by blast
  have run: "render_requests eviction_run loaded_session =
      snd (renderFullPage 7 (Some 2) (snd (renderFullPage 1 (Some 2) ?s)))"
    by (simp add: eviction_run_def six_pages_def)
  have st: "stored_key 7 2 ?s \<noteq> []"
    by (simp add: stored_key_def six_pages_cache jsmap_get_def cacheKey_def renderFullPage_def
        Let_def six_pages_def sample_render_miss loaded_session_def startup_def
        sample_document_def sample_page_def cache_store_def jsmap_size_def)
  from page_cache_fifo [OF d, of 7 2 "Canvas 1600 600" "[]"] st
  have "map fst (pageCache (snd (renderFullPage 7 (Some 2) ?s))) =
          [(2, 2), (3, 2), (4, 2), (5, 2), (6, 2), (7, 2)]"
    by (simp add: keys jsmap_size_def six_pages_cache cacheKey_def)
  with d keys hit run show ?thesis
    by simp
qed

subsection \<open>Loading a document\<close>

lemma showToast_app_state: "app_state (showToast msg ty s) = app_state s"
  by (simp add: showToast_def app_state_def)

lemma setLoading_app_state: "app_state (setLoading shown s) = app_state s"
  by (simp add: setLoading_def app_state_def)

lemma handleFileSelect_not_pdf:
  assumes "file_arg = None \<or> (\<exists>f. file_arg = Some f \<and> \<not> endsWith (toLowerCase (file_name f)) ''.pdf'')"
  shows "app_state (handleFileSelect file_arg form s) = app_state s"
  using assms by (auto simp: handleFileSelect_def showToast_app_state)

lemma loadPdfFromUrl_fetch_failed:
  fixes s :: presenter
  assumes "pdfjsLib s = None \<or> isl (fetch url) \<or> (\<exists>resp. fetch url = Inr resp \<and> (\<not> ok resp \<or> isl (arrayBuffer resp)))"
  shows "isl (fst (loadPdfFromUrl fetch url s)) \<and> snd (loadPdfFromUrl fetch url s) = s"
  using assms by (auto simp: loadPdfFromUrl_def split: option.splits sum.splits)

lemma loadPdfFromBuffer_rejected:
  fixes s :: presenter
  assumes "pdfjsLib s = Some lib" "getDocument lib buf = Inl e"
  shows "loadPdfFromBuffer buf s = (Inl e, s\<lparr>pdfData := Some buf\<rparr>)"
  using assms by (simp add: loadPdfFromBuffer_def Let_def)

lemma loadPdfFromUrl_rejected:
  fixes s :: presenter
  assumes "pdfjsLib s = Some lib" "fetch url = Inr resp" "ok resp" "arrayBuffer resp = Inr buf"
    "getDocument lib buf = Inl e"
  shows "loadPdfFromUrl fetch url s = (Inl e, s\<lparr>pdfData := Some buf, pdfUrl := Some url\<rparr>)"
  using assms by (simp add: loadPdfFromUrl_def Let_def)

text \<open>
  C6 asks that a failed load leave every field as it was. \<open>loadPdfFromBuffer\<close> stores
  the new bytes in \<open>pdfData\<close> before the engine parses them: with a ten-page document
  loaded, choosing a file that the engine rejects leaves the old document, page count
  and page in place and replaces \<open>pdfData\<close> by the rejected bytes.
\<close>

theorem failed_load_overwrites_pdfData:
  "pdfData loaded_session = Some sample_bytes \<and>
   toast (handleFileSelect (Some broken_file) default_form loaded_session) =
     Some (''Failed to load PDF: Invalid PDF structure.'', ''error'') \<and>
   pdfData (handleFileSelect (Some broken_file) default_form loaded_session) = Some broken_bytes \<and>
   pdfDoc (handleFileSelect (Some broken_file) default_form loaded_session) = Some sample_document \<and>
   totalPages (handleFileSelect (Some broken_file) default_form loaded_session) = 10"
proof -
  have name: "endsWith (toLowerCase (file_name broken_file)) ''.pdf''"
    by code_simp
  have fa: "file_arrayBuffer broken_file = Inr broken_bytes"
    by (simp add: broken_file_def)
  have lib: "pdfjsLib (setLoading True loaded_session) = Some sample_pdfjs"
    by (simp add: setLoading_def loaded_session_def)
  have rej: "getDocument sample_pdfjs broken_bytes = Inl (Error ''Invalid PDF structure.'')"
    by (simp add: sample_pdfjs_def broken_bytes_def sample_bytes_def)
  have run: "handleFileSelect (Some broken_file) default_form loaded_session =
      setLoading False (showToast (''Failed to load PDF: '' @ error_message (Error ''Invalid PDF structure.'')) ''error''
        ((setLoading True loaded_session)\<lparr>pdfData := Some broken_bytes\<rparr>))"
    using name fa by (simp add: handleFileSelect_def Let_def loadPdfFromBuffer_rejected [OF lib rej])
  show ?thesis
    unfolding run
    by (simp add: setLoading_def showToast_def error_message_def loaded_session_def startup_def)
qed

subsection \<open>Pointer\<close>
























end
